theory Spec2Isabelle
  imports Main "HOL-Library.Word"
begin

section \<open>Strings and chunking\<close>

text \<open>
  A Python \<^verbatim>\<open>str\<close> is a sequence of Unicode code points, and \<^verbatim>\<open>len\<close> and slicing
  count code points. A character is therefore modelled by its code point and a string by
  the list of its code points; ASCII literals of the source are written with \<open>str_of\<close>.
\<close>

type_synonym pychar = nat
type_synonym pystr = "pychar list"

definition str_of :: "string \<Rightarrow> pystr" where
  "str_of s = map of_char s"

abbreviation NL :: pystr where
  "NL \<equiv> [10]"

text \<open>
  Both adapters of \<^verbatim>\<open>app.py\<close> build their chunk list with the same comprehension
  \<^verbatim>\<open>[text[i:i+1024] for i in range(0, len(text), 1024)]\<close>.
  \<open>slices_from k i text\<close> is that comprehension from index \<open>i\<close> on, with the literal
  1024 as \<open>k\<close>: the index runs \<open>i, i + k, \<dots>\<close> while it is below \<open>len(text)\<close>, and the
  slice \<^verbatim>\<open>text[i:i+k]\<close> of an index inside the string is \<open>take k (drop i text)\<close> (a
  Python slice is cut off at the end of the string). The source only has \<open>k = 1024\<close>;
  a step of 0, which \<^verbatim>\<open>range\<close> rejects, is given no chunks here.
\<close>

function slices_from :: "nat \<Rightarrow> nat \<Rightarrow> 'a list \<Rightarrow> 'a list list" where
  "slices_from k i text =
     (if 0 < k \<and> i < length text
      then take k (drop i text) # slices_from k (i + k) text
      else [])"
  by pat_completeness auto
termination
  by (relation "measure (\<lambda>(k, i, text). length text - i)") auto

declare slices_from.simps [simp del]

definition text_chunks :: "'a list \<Rightarrow> 'a list list" where
  "text_chunks text = slices_from 1024 0 text"

section \<open>Exceptions, dictionaries and the three models\<close>

text \<open>
  An exception is a value; an operation that may raise returns \<open>pyexn + 'a\<close>, with
  \<open>Inl\<close> the exception raised. \<open>KeyError\<close> is what a subscript on a dictionary raises
  for a missing key, \<open>UnicodeEncodeError\<close> what the UTF-8 codec raises for a code point
  it cannot encode, \<open>OSError\<close> what \<^verbatim>\<open>open\<close> raises; \<open>LibraryError\<close> stands for any
  other exception of a model library.
\<close>

datatype pyexn =
    KeyError pystr
  | UnicodeEncodeError pychar
  | OSError nat
  | LibraryError string

type_synonym pydict = "pystr \<rightharpoonup> pystr"

definition getitem :: "pydict \<Rightarrow> pystr \<Rightarrow> pyexn + pystr" where
  "getitem d key = (case d key of None \<Rightarrow> Inl (KeyError key) | Some v \<Rightarrow> Inr v)"

text \<open>
  The comprehension \<^verbatim>\<open>[d[key] for d in ds]\<close>: it raises at the first dictionary without
  the key.
\<close>

fun collect_field :: "pystr \<Rightarrow> pydict list \<Rightarrow> pyexn + pystr list" where
  "collect_field key [] = Inr []"
| "collect_field key (d # ds) =
     (case getitem d key of
        Inl e \<Rightarrow> Inl e
      | Inr v \<Rightarrow> (case collect_field key ds of Inl e \<Rightarrow> Inl e | Inr vs \<Rightarrow> Inr (v # vs)))"

text \<open>\<^verbatim>\<open>sep.join(xs)\<close>.\<close>

fun py_join :: "'a list \<Rightarrow> 'a list list \<Rightarrow> 'a list" where
  "py_join sep [] = []"
| "py_join sep [x] = x"
| "py_join sep (x # y # ys) = x @ sep @ py_join sep (y # ys)"

text \<open>
  The module loads three models once and every function reads them as globals; here
  they are the fields of a record passed to every function. A model returns a
  dictionary, or a list of dictionaries, or raises. \<open>whisper_model\<close> is
  \<^verbatim>\<open>whisper_model.transcribe\<close>, a function of the path. \<open>summarizer\<close> takes the chunk list
  and the keyword arguments \<^verbatim>\<open>max_length\<close>, \<^verbatim>\<open>min_length\<close>, \<^verbatim>\<open>do_sample\<close>; the source calls it
  without sampling, and it is a function of its arguments. \<open>question_generator\<close> takes the
  prompt and \<^verbatim>\<open>max_length\<close>, \<^verbatim>\<open>num_return_sequences\<close>, \<^verbatim>\<open>do_sample\<close>; the source calls it
  with sampling on, so it also reads and advances a sampler state \<open>'s\<close> shared by all
  threads, and each call is one atomic step on that state.
\<close>

record 's models =
  whisper_model :: "pystr \<Rightarrow> pyexn + pydict"
  summarizer :: "pystr list \<Rightarrow> nat \<Rightarrow> nat \<Rightarrow> bool \<Rightarrow> pyexn + pydict list"
  question_generator :: "pystr \<Rightarrow> nat \<Rightarrow> nat \<Rightarrow> bool \<Rightarrow> 's \<Rightarrow> (pyexn + pydict list) \<times> 's"

section \<open>The adapters\<close>

text \<open>
  The three adapters of \<^verbatim>\<open>app.py\<close>. Their progress messages on standard output are
  not part of the model.
\<close>

definition transcribe_audio :: "'s models \<Rightarrow> pystr \<Rightarrow> pyexn + pystr" where
  "transcribe_audio m audio_path =
     (case whisper_model m audio_path of
        Inl e \<Rightarrow> Inl e
      | Inr result \<Rightarrow> getitem result (str_of ''text''))"

definition summarize_text :: "'s models \<Rightarrow> pystr \<Rightarrow> pyexn + pystr" where
  "summarize_text m text =
     (case summarizer m (text_chunks text) 200 50 False of
        Inl e \<Rightarrow> Inl e
      | Inr summaries \<Rightarrow>
          (case collect_field (str_of ''summary_text'') summaries of
             Inl e \<Rightarrow> Inl e
           | Inr ss \<Rightarrow> Inr (py_join (str_of '' '') ss)))"

text \<open>The f-string handed to the question generator for one chunk.\<close>

definition prompt :: "pystr \<Rightarrow> pystr" where
  "prompt chunk =
     str_of ''You are an AI tutor. Your task is to generate **insightful, topic-specific** questions based on the following passage. Ensure that the questions are relevant to the **key concepts, definitions, and explanations** present in the text. Avoid generic questions.''
     @ NL @ NL @ str_of ''Passage:'' @ NL @ chunk"

subsection \<open>The thread pool of \<^verbatim>\<open>generate_questions\<close>\<close>

text \<open>
  \<^verbatim>\<open>executor.submit\<close> queues one task per chunk; the workers run the tasks concurrently
  and the order in which they complete is not fixed by the program. A task is identified
  by its position in \<^verbatim>\<open>future_questions\<close>. \<open>run_pool picks pending s\<close> runs every
  pending task, one atomic model call after the other: the scheduler's next pick
  (reduced modulo the number of pending tasks; 0 when the picks are used up) selects the
  pending task that completes next. It returns the task numbers with their outcomes in
  completion order, and the sampler state after the last call. Every list of picks is a
  schedule; a pool with few workers produces only some of the completion orders that
  the picks can produce, so what holds for every list of picks holds for every run of
  the pool.
\<close>

fun remove_nth :: "nat \<Rightarrow> 'a list \<Rightarrow> 'a list" where
  "remove_nth k [] = []"
| "remove_nth 0 (x # xs) = xs"
| "remove_nth (Suc k) (x # xs) = x # remove_nth k xs"

definition next_pick :: "nat list \<Rightarrow> nat \<Rightarrow> nat" where
  "next_pick picks n = (case picks of [] \<Rightarrow> 0 | p # _ \<Rightarrow> p mod n)"

function run_pool ::
  "nat list \<Rightarrow> (nat \<times> ('s \<Rightarrow> 'r \<times> 's)) list \<Rightarrow> 's \<Rightarrow> (nat \<times> 'r) list \<times> 's" where
  "run_pool picks pending s =
     (if pending = [] then ([], s)
      else
        (let k = next_pick picks (length pending);
             (r, s') = snd (pending ! k) s;
             (finished, s'') = run_pool (tl picks) (remove_nth k pending) s'
         in ((fst (pending ! k), r) # finished, s'')))"
  by pat_completeness auto
termination
proof (relation "measure (\<lambda>(picks, pending, s). length pending)")
  show "wf (measure (\<lambda>(picks, pending, s). length pending))"
    by simp
next
  fix picks :: "nat list" and pending :: "(nat \<times> ('s \<Rightarrow> 'r \<times> 's)) list" and s :: 's
    and k x r s'
  assume ne: "pending \<noteq> []" and k: "k = next_pick picks (length pending)"
  have "k < length pending"
    using ne k by (cases picks) (simp_all add: next_pick_def)
  moreover have "\<And>j (xs :: (nat \<times> ('s \<Rightarrow> 'r \<times> 's)) list).
                   j < length xs \<Longrightarrow> length (remove_nth j xs) < length xs"
  proof -
    fix j and xs :: "(nat \<times> ('s \<Rightarrow> 'r \<times> 's)) list"
    show "j < length xs \<Longrightarrow> length (remove_nth j xs) < length xs"
      by (induction j xs rule: remove_nth.induct) simp_all
  qed
  ultimately show "((tl picks, remove_nth k pending, s'), (picks, pending, s))
                   \<in> measure (\<lambda>(picks, pending, s). length pending)"
    by simp
qed

declare run_pool.simps [simp del]

text \<open>
  The loop \<^verbatim>\<open>for future in future_questions\<close>: the futures are read in submission order.
  \<^verbatim>\<open>future.result()\<close> returns the task's value or raises the task's exception; on a
  future that no worker ever completes it would block for ever, which is the value
  \<open>None\<close>. \<open>questions\<close> is the list extended so far.
\<close>

fun await_all ::
  "(nat \<rightharpoonup> pyexn + pydict list) \<Rightarrow> nat list \<Rightarrow> pystr list \<Rightarrow> (pyexn + pystr list) option" where
  "await_all futures [] questions = Some (Inr questions)"
| "await_all futures (i # rest) questions =
     (case futures i of
        None \<Rightarrow> None
      | Some (Inl e) \<Rightarrow> Some (Inl e)
      | Some (Inr generated) \<Rightarrow>
          (case collect_field (str_of ''generated_text'') generated of
             Inl e \<Rightarrow> Some (Inl e)
           | Inr qs \<Rightarrow> await_all futures rest (questions @ qs)))"

text \<open>
  \<open>question_list\<close> is the value of the local variable \<^verbatim>\<open>questions\<close> when the \<^verbatim>\<open>with\<close>
  block of \<^verbatim>\<open>generate_questions\<close> is left, or the exception that leaves it. Leaving the
  block waits for every submitted task, also when the loop raised, so all model calls
  have run by then. The result also carries the sampler state after the calls and the
  order in which the pool completed the tasks.
\<close>

definition question_list ::
  "'s models \<Rightarrow> nat list \<Rightarrow> pystr \<Rightarrow> 's \<Rightarrow> ((pyexn + pystr list) \<times> 's \<times> nat list) option" where
  "question_list m picks text s =
     (let chunks = text_chunks text;
          future_questions =
            enumerate 0 (map (\<lambda>chunk. question_generator m (prompt chunk) 120 3 True) chunks);
          (finished, s') = run_pool picks future_questions s
      in case await_all (map_of finished) (map fst future_questions) [] of
           None \<Rightarrow> None
         | Some r \<Rightarrow> Some (r, s', map fst finished))"

definition generate_questions ::
  "'s models \<Rightarrow> nat list \<Rightarrow> pystr \<Rightarrow> 's \<Rightarrow> ((pyexn + pystr) \<times> 's \<times> nat list) option" where
  "generate_questions m picks text s =
     (case question_list m picks text s of
        None \<Rightarrow> None
      | Some (Inl e, s', order) \<Rightarrow> Some (Inl e, s', order)
      | Some (Inr questions, s', order) \<Rightarrow> Some (Inr (py_join NL questions), s', order))"

section \<open>The report file\<close>

text \<open>
  \<^verbatim>\<open>open(file_path, "w", encoding="utf-8")\<close> opens a text file: what is written is the
  UTF-8 encoding of the string, after each \<^verbatim>\<open>\n\<close> has been replaced by the line
  separator of the platform (the default \<^verbatim>\<open>newline=None\<close>). The codec is strict: it
  rejects the surrogate code points, and nothing above \<open>0x10FFFF\<close> is a character.
\<close>

type_synonym byte = "8 word"

datatype platform = Posix | Windows

fun linesep :: "platform \<Rightarrow> pystr" where
  "linesep Posix = [10]"
| "linesep Windows = [13, 10]"

definition translate_newlines :: "platform \<Rightarrow> pystr \<Rightarrow> pystr" where
  "translate_newlines p text = concat (map (\<lambda>c. if c = 10 then linesep p else [c]) text)"

definition utf8_char :: "pychar \<Rightarrow> byte list option" where
  "utf8_char c =
     (if c < 0x80 then Some [of_nat c]
      else if c < 0x800 then Some [of_nat (0xC0 + c div 64), of_nat (0x80 + c mod 64)]
      else if 0xD800 \<le> c \<and> c \<le> 0xDFFF then None
      else if c < 0x10000 then
        Some [of_nat (0xE0 + c div 4096), of_nat (0x80 + c div 64 mod 64),
              of_nat (0x80 + c mod 64)]
      else if c < 0x110000 then
        Some [of_nat (0xF0 + c div 262144), of_nat (0x80 + c div 4096 mod 64),
              of_nat (0x80 + c div 64 mod 64), of_nat (0x80 + c mod 64)]
      else None)"

fun utf8_encode :: "pystr \<Rightarrow> pyexn + byte list" where
  "utf8_encode [] = Inr []"
| "utf8_encode (c # cs) =
     (case utf8_char c of
        None \<Rightarrow> Inl (UnicodeEncodeError c)
      | Some bs \<Rightarrow> (case utf8_encode cs of Inl e \<Rightarrow> Inl e | Inr rest \<Rightarrow> Inr (bs @ rest)))"

text \<open>The bytes that a text file opened in this way receives for a string.\<close>

definition encode_text :: "platform \<Rightarrow> pystr \<Rightarrow> pyexn + byte list" where
  "encode_text p text = utf8_encode (translate_newlines p text)"

text \<open>
  What a call can see and change outside its own variables: the files (a path to its
  bytes), the faults of the file system (\<open>open_error\<close> gives the exception with which
  opening a path for writing fails), the platform, the sampler state of the question
  generator, and the log of the model calls made so far, in the order in which they
  were made.
\<close>

datatype call = Whisper pystr | Summarizer "pystr list" | Generator nat

record 's world =
  files :: "pystr \<rightharpoonup> byte list"
  open_error :: "pystr \<rightharpoonup> pyexn"
  platform :: platform
  sampler :: 's
  calls :: "call list"

text \<open>
  \<^verbatim>\<open>with open(file_path, "w", encoding="utf-8") as f: f.write(combined_text)\<close>.
  Opening for writing creates the file or empties it; when the encoder then rejects the
  string the exception leaves the block and the file stays empty.
\<close>

definition write_file :: "pystr \<Rightarrow> pystr \<Rightarrow> 's world \<Rightarrow> (pyexn + unit) \<times> 's world" where
  "write_file file_path content w =
     (case open_error w file_path of
        Some e \<Rightarrow> (Inl e, w)
      | None \<Rightarrow>
          (case encode_text (platform w) content of
             Inl e \<Rightarrow> (Inl e, w\<lparr>files := (files w)(file_path \<mapsto> [])\<rparr>)
           | Inr bytes \<Rightarrow> (Inr (), w\<lparr>files := (files w)(file_path \<mapsto> bytes)\<rparr>)))"

section \<open>The orchestrator\<close>

text \<open>The f-string \<^verbatim>\<open>combined_text\<close>; the three emoji are U+1F4DD, U+1F4DC and U+1F914.\<close>

definition combined_text :: "pystr \<Rightarrow> pystr \<Rightarrow> pystr \<Rightarrow> pystr" where
  "combined_text transcript summary questions =
     [0x1F4DD] @ str_of '' Transcription:'' @ NL @ transcript @ NL @ NL
     @ [0x1F4DC] @ str_of '' Summary:'' @ NL @ summary @ NL @ NL
     @ [0x1F914] @ str_of '' Practice Questions:'' @ NL @ questions"

text \<open>
  The two tasks that \<^verbatim>\<open>process_audio\<close> submits after the transcription run
  concurrently: the one model call of \<^verbatim>\<open>summarize_text\<close> falls anywhere among the calls
  of \<^verbatim>\<open>generate_questions\<close>. \<open>merge_by\<close> interleaves the calls of the two tasks as the
  scheduler decides (\<open>True\<close>: the first task makes its next call).
\<close>

fun merge_by :: "bool list \<Rightarrow> 'a list \<Rightarrow> 'a list \<Rightarrow> 'a list" where
  "merge_by bs [] ys = ys"
| "merge_by bs (x # xs) [] = x # xs"
| "merge_by [] (x # xs) (y # ys) = x # xs @ y # ys"
| "merge_by (True # bs) (x # xs) (y # ys) = x # merge_by bs xs (y # ys)"
| "merge_by (False # bs) (x # xs) (y # ys) = y # merge_by bs (x # xs) ys"

record schedule =
  gen_picks :: "nat list"
  pool_merge :: "bool list"

text \<open>
  \<^verbatim>\<open>process_audio\<close>. The transcription is submitted and awaited at once. Then both tasks
  are submitted; the summary is awaited first, the questions second. When an awaited
  task raised, its exception leaves the \<^verbatim>\<open>with\<close> block, which still waits for the other
  task to finish: the calls of \<^verbatim>\<open>generate_questions\<close> are made in every case, and a call
  of \<^verbatim>\<open>process_audio\<close> returns only if that task does. \<open>None\<close> is a call that never
  returns.
\<close>

definition process_audio ::
  "'s models \<Rightarrow> schedule \<Rightarrow> pystr \<Rightarrow> 's world
   \<Rightarrow> ((pyexn + pystr \<times> pystr \<times> pystr \<times> pystr) \<times> 's world) option" where
  "process_audio m sch audio_path w =
     (case transcribe_audio m audio_path of
        Inl e \<Rightarrow> Some (Inl e, w\<lparr>calls := calls w @ [Whisper audio_path]\<rparr>)
      | Inr transcript \<Rightarrow>
          (case generate_questions m (gen_picks sch) transcript (sampler w) of
             None \<Rightarrow> None
           | Some (questions_result, s', order) \<Rightarrow>
               (let w' = w\<lparr>sampler := s',
                            calls := calls w @ [Whisper audio_path]
                              @ merge_by (pool_merge sch)
                                  [Summarizer (text_chunks transcript)] (map Generator order)\<rparr>
                in case summarize_text m transcript of
                     Inl e \<Rightarrow> Some (Inl e, w')
                   | Inr summary \<Rightarrow>
                       (case questions_result of
                          Inl e \<Rightarrow> Some (Inl e, w')
                        | Inr questions \<Rightarrow>
                            (let file_path = str_of ''lecture_summary.txt'' in
                             case write_file file_path
                                    (combined_text transcript summary questions) w' of
                               (Inl e, w'') \<Rightarrow> Some (Inl e, w'')
                             | (Inr u, w'') \<Rightarrow>
                                 Some (Inr (transcript, summary, questions, file_path), w''))))))"

section \<open>Test doubles\<close>

text \<open>
  Models with fixed answers, used to run the functions on concrete inputs. Their sampler
  state counts the calls of the question generator.

  \<open>stub_models audio\<close>: the transcription of \<open>audio\<close> is \<^verbatim>\<open>"hello world"\<close> (other paths
  cannot be read), every chunk is summarised as \<^verbatim>\<open>"SUM"\<close>, and every prompt is answered
  with \<^verbatim>\<open>"Q1"\<close>, \<^verbatim>\<open>"Q2"\<close>, \<^verbatim>\<open>"Q3"\<close>.
\<close>

definition stub_models :: "pystr \<Rightarrow> nat models" where
  "stub_models audio =
     \<lparr>whisper_model = (\<lambda>p. if p = audio then Inr [str_of ''text'' \<mapsto> str_of ''hello world'']
                              else Inl (LibraryError ''cannot read audio'')),
      summarizer = (\<lambda>chunks max_length min_length do_sample.
                      Inr (map (\<lambda>chunk. [str_of ''summary_text'' \<mapsto> str_of ''SUM'']) chunks)),
      question_generator = (\<lambda>p max_length num_return_sequences do_sample s.
                      (Inr [[str_of ''generated_text'' \<mapsto> str_of ''Q1''],
                            [str_of ''generated_text'' \<mapsto> str_of ''Q2''],
                            [str_of ''generated_text'' \<mapsto> str_of ''Q3'']], Suc s))\<rparr>"

text \<open>
  \<open>echo_models\<close>: the transcription of a path is the path itself, the summary of a chunk
  is its first character, and each candidate question for a prompt is the last character
  of the prompt, that is of the chunk.
\<close>

definition echo_models :: "nat models" where
  "echo_models =
     \<lparr>whisper_model = (\<lambda>p. Inr [str_of ''text'' \<mapsto> p]),
      summarizer = (\<lambda>chunks max_length min_length do_sample.
                      Inr (map (\<lambda>chunk. [str_of ''summary_text'' \<mapsto> take 1 chunk]) chunks)),
      question_generator = (\<lambda>p max_length num_return_sequences do_sample s.
                      (Inr (replicate num_return_sequences
                              [str_of ''generated_text'' \<mapsto> [last p]]), Suc s))\<rparr>"

text \<open>
  \<open>failing_models e1 e2\<close>: the transcription succeeds, the summarizer raises \<open>e1\<close> and
  the question generator raises \<open>e2\<close>.
\<close>

definition failing_models :: "pyexn \<Rightarrow> pyexn \<Rightarrow> nat models" where
  "failing_models e1 e2 =
     \<lparr>whisper_model = (\<lambda>p. Inr [str_of ''text'' \<mapsto> p]),
      summarizer = (\<lambda>chunks max_length min_length do_sample. Inl e1),
      question_generator = (\<lambda>p max_length num_return_sequences do_sample s. (Inl e2, Suc s))\<rparr>"

text \<open>A world with no files and no faults, on a POSIX platform.\<close>

definition empty_world :: "nat world" where
  "empty_world =
     \<lparr>files = Map.empty, open_error = Map.empty, platform = Posix, sampler = 0, calls = []\<rparr>"

section \<open>Properties of the chunker\<close>

lemma slices_from_beyond: "length s \<le> i \<Longrightarrow> slices_from k i s = []"
  by (simp add: slices_from.simps)

lemma slices_from_step:
  "0 < k \<Longrightarrow> i < length s \<Longrightarrow>
   slices_from k i s = take k (drop i s) # slices_from k (i + k) s"
  by (subst slices_from.simps) simp

lemma concat_slices_from: "0 < k \<Longrightarrow> concat (slices_from k i s) = drop i s"
proof (induction k i s rule: slices_from.induct)
  case (1 k i s)
  show ?case
  proof (cases "i < length s")
    case True
    have "concat (slices_from k i s)
          = take k (drop i s) @ concat (slices_from k (i + k) s)"
      using True "1.prems" by (simp add: slices_from_step)
    also have "\<dots> = take k (drop i s) @ drop (i + k) s"
      using "1.IH" True "1.prems" by simp
    also have "\<dots> = take k (drop i s) @ drop k (drop i s)"
      by (simp add: add.commute)
    also have "\<dots> = drop i s"
      by (rule append_take_drop_id)
    finally show ?thesis .
  next
    case False
    then show ?thesis by (simp add: slices_from_beyond)
  qed
qed

lemma length_slices_from:
  "0 < k \<Longrightarrow> length (slices_from k i s) = (length s - i + k - 1) div k"
proof (induction k i s rule: slices_from.induct)
  case (1 k i s)
  show ?case
  proof (cases "i < length s")
    case True
    then obtain m where m: "length s - i = Suc m"
      by (cases "length s - i") auto
    have rest: "(length s - (i + k) + k - 1) div k = m div k"
    proof (cases "k \<le> Suc m")
      case True
      then have "length s - (i + k) + k - 1 = m" using m by arith
      then show ?thesis by simp
    next
      case False
      then have "length s - (i + k) + k - 1 = k - 1" and "m < k" using m by arith+
      then show ?thesis using "1.prems" by simp
    qed
    have "length (slices_from k i s) = Suc (length (slices_from k (i + k) s))"
      using True "1.prems" by (simp add: slices_from_step)
    also have "\<dots> = Suc ((length s - (i + k) + k - 1) div k)"
      using "1.IH" True "1.prems" by simp
    also have "\<dots> = Suc (m div k)"
      by (simp only: rest)
    also have "\<dots> = (m + k) div k"
      using "1.prems" div_add_self2 [of k m] by simp
    also have "m + k = length s - i + k - 1"
      using m by simp
    finally show ?thesis .
  next
    case False
    then show ?thesis using "1.prems" by (simp add: slices_from_beyond)
  qed
qed

lemma nth_slices_from:
  "0 < k \<Longrightarrow> j < length (slices_from k i s) \<Longrightarrow>
   slices_from k i s ! j = take k (drop (i + j * k) s)"
proof (induction k i s arbitrary: j rule: slices_from.induct)
  case (1 k i s)
  show ?case
  proof (cases "i < length s")
    case True
    note step = slices_from_step [OF "1.prems"(1) True]
    show ?thesis
    proof (cases j)
      case 0
      then show ?thesis by (simp add: step)
    next
      case (Suc j')
      have "j' < length (slices_from k (i + k) s)"
        using "1.prems"(2) Suc by (simp add: step)
      then have "slices_from k (i + k) s ! j' = take k (drop (i + k + j' * k) s)"
        using "1.IH" True "1.prems"(1) by simp
      then show ?thesis using Suc by (simp add: step add.assoc)
    qed
  next
    case False
    then show ?thesis using "1.prems"(2) by (simp add: slices_from_beyond)
  qed
qed

lemma length_nth_slices_from:
  assumes k: "0 < k" and j: "Suc j < length (slices_from k 0 s)"
  shows "length (slices_from k 0 s ! j) = k"
proof -
  have "Suc j < (length s + k - 1) div k"
    using j k by (simp add: length_slices_from)
  then have "Suc (Suc j) * k \<le> (length s + k - 1) div k * k"
    by (simp only: Suc_le_eq [symmetric] mult_le_mono1)
  also have "\<dots> \<le> length s + k - 1"
    by (rule div_times_less_eq_dividend)
  finally have "j * k + k + k \<le> length s + k - 1" by (simp add: algebra_simps)
  then have "j * k + k \<le> length s" using k by simp
  moreover have "slices_from k 0 s ! j = take k (drop (j * k) s)"
    using nth_slices_from [OF k, of j 0 s] j by simp
  ultimately show ?thesis by simp
qed

lemma text_chunks_single: "s \<noteq> [] \<Longrightarrow> length s \<le> 1024 \<Longrightarrow> text_chunks s = [s]"
  by (simp add: text_chunks_def slices_from_step slices_from_beyond)

lemma text_chunks_multi: "1024 < length s \<Longrightarrow> 2 \<le> length (text_chunks s)"
  by (simp add: text_chunks_def length_slices_from)

lemma two_chunks: "text_chunks (replicate 1024 (97::nat) @ [98]) = [replicate 1024 97, [98]]"
  by (simp add: text_chunks_def slices_from.simps)

lemma text_chunks_a: "text_chunks (str_of ''a'') = [str_of ''a'']"
  by (rule text_chunks_single) (simp_all add: str_of_def)

section \<open>Properties of the summarization adapter\<close>

lemma collect_field_length: "collect_field key ds = Inr vs \<Longrightarrow> length vs = length ds"
  by (induction ds arbitrary: vs) (auto split: sum.splits)

lemma collect_field_present:
  "\<forall>d\<in>set ds. d key \<noteq> None \<Longrightarrow> \<exists>vs. collect_field key ds = Inr vs"
  by (induction ds) (auto simp: getitem_def split: sum.splits option.splits)

lemma collect_field_nth:
  "collect_field key ds = Inr vs \<Longrightarrow> i < length ds \<Longrightarrow> (ds ! i) key = Some (vs ! i)"
proof (induction ds arbitrary: vs i)
  case Nil
  then show ?case by simp
next
  case (Cons d ds)
  from Cons.prems(1) obtain v vs' where v: "d key = Some v"
    and r: "collect_field key ds = Inr vs'" and vs: "vs = v # vs'"
    by (auto simp: getitem_def split: sum.splits option.splits)
  show ?case
  proof (cases i)
    case 0
    then show ?thesis using v vs by simp
  next
    case (Suc j)
    then show ?thesis using Cons.IH [OF r, of j] Cons.prems(2) vs by simp
  qed
qed

lemma length_py_join:
  "length (py_join sep xs) = sum_list (map length xs) + length sep * (length xs - 1)"
  by (induction sep xs rule: py_join.induct) simp_all

lemma echo_summaries:
  "collect_field (str_of ''summary_text'')
     [[str_of ''summary_text'' \<mapsto> [97]], [str_of ''summary_text'' \<mapsto> [98]]] = Inr [[97], [98]]"
  by (simp add: getitem_def)

section \<open>Properties of the thread pool\<close>

lemma length_remove_nth: "k < length xs \<Longrightarrow> length (remove_nth k xs) < length xs"
  by (induction k xs rule: remove_nth.induct) simp_all

lemma set_remove_nth: "k < length xs \<Longrightarrow> set xs = insert (xs ! k) (set (remove_nth k xs))"
  by (induction k xs rule: remove_nth.induct) auto

lemma distinct_remove_nth:
  "k < length xs \<Longrightarrow> distinct (map f xs) \<Longrightarrow>
   distinct (map f (remove_nth k xs)) \<and> f (xs ! k) \<notin> f ` set (remove_nth k xs)"
proof (induction k xs rule: remove_nth.induct)
  case (3 k x xs)
  then have "distinct (map f (remove_nth k xs))" and "f (xs ! k) \<notin> f ` set (remove_nth k xs)"
    by simp_all
  moreover have "set (remove_nth k xs) \<subseteq> set xs"
    using set_remove_nth [of k xs] "3.prems" by auto
  moreover have "f x \<notin> f ` set xs"
    using "3.prems" by auto
  moreover have "f (xs ! k) \<noteq> f x"
  proof -
    have "k < length xs" using "3.prems" by simp
    then have "f (xs ! k) \<in> f ` set xs" by simp
    moreover have "f x \<notin> f ` set xs" using "3.prems" by auto
    ultimately show ?thesis by metis
  qed
  ultimately show ?case by auto
qed simp_all

lemma next_pick_less: "0 < n \<Longrightarrow> next_pick picks n < n"
  by (cases picks) (simp_all add: next_pick_def)

lemma run_pool_Nil: "run_pool picks [] s = ([], s)"
  by (simp add: run_pool.simps)

lemma run_pool_step:
  assumes "pending \<noteq> []"
  shows "run_pool picks pending s =
           ((fst (pending ! next_pick picks (length pending)),
             fst (snd (pending ! next_pick picks (length pending)) s))
            # fst (run_pool (tl picks) (remove_nth (next_pick picks (length pending)) pending)
                     (snd (snd (pending ! next_pick picks (length pending)) s))),
            snd (run_pool (tl picks) (remove_nth (next_pick picks (length pending)) pending)
                     (snd (snd (pending ! next_pick picks (length pending)) s))))"
  using assms by (subst run_pool.simps) (simp add: Let_def split_beta)

lemma run_pool_order:
  "distinct (map fst pending) \<Longrightarrow>
   distinct (map fst (fst (run_pool picks pending s)))
   \<and> set (map fst (fst (run_pool picks pending s))) = set (map fst pending)"
proof (induction "length pending" arbitrary: picks pending s rule: less_induct)
  case less
  show ?case
  proof (cases "pending = []")
    case True
    then show ?thesis by (simp add: run_pool_Nil)
  next
    case False
    define k where "k = next_pick picks (length pending)"
    define s' where "s' = snd (snd (pending ! k) s)"
    have k: "k < length pending"
      using False by (simp add: k_def next_pick_less)
    have d: "distinct (map fst (remove_nth k pending))"
      and notin: "fst (pending ! k) \<notin> fst ` set (remove_nth k pending)"
      using distinct_remove_nth [OF k less.prems] by simp_all
    have IH: "distinct (map fst (fst (run_pool (tl picks) (remove_nth k pending) s')))
              \<and> set (map fst (fst (run_pool (tl picks) (remove_nth k pending) s')))
                = set (map fst (remove_nth k pending))"
      using less.hyps [OF length_remove_nth [OF k] d] .
    have st: "set (map fst pending)
              = insert (fst (pending ! k)) (set (map fst (remove_nth k pending)))"
      using set_remove_nth [OF k] by (metis image_insert set_map)
    show ?thesis
      using IH notin st by (simp add: run_pool_step [OF False] k_def [symmetric] s'_def [symmetric])
  qed
qed

lemma run_pool_lookup:
  "distinct (map fst pending) \<Longrightarrow> (i, job) \<in> set pending \<Longrightarrow>
   \<exists>st. map_of (fst (run_pool picks pending s)) i = Some (fst (job st))"
proof (induction "length pending" arbitrary: picks pending s rule: less_induct)
  case less
  from less.prems(2) have False: "pending \<noteq> []" by auto
  define k where "k = next_pick picks (length pending)"
  define s' where "s' = snd (snd (pending ! k) s)"
  have k: "k < length pending"
    using False by (simp add: k_def next_pick_less)
  have d: "distinct (map fst (remove_nth k pending))"
    using distinct_remove_nth [OF k less.prems(1)] by simp
  have unf: "fst (run_pool picks pending s)
             = (fst (pending ! k), fst (snd (pending ! k) s))
               # fst (run_pool (tl picks) (remove_nth k pending) s')"
    by (simp add: run_pool_step [OF False] k_def [symmetric] s'_def [symmetric])
  show ?case
  proof (cases "fst (pending ! k) = i")
    case True
    have "pending ! k \<in> set pending" using k by simp
    then have "pending ! k = (i, job)"
      using less.prems True by (metis eq_key_imp_eq_value prod.collapse)
    then show ?thesis by (auto simp: unf)
  next
    case ne: False
    have "pending ! k \<noteq> (i, job)"
      using ne by auto
    then have "(i, job) \<in> set (remove_nth k pending)"
      using set_remove_nth [OF k] less.prems(2) by auto
    then obtain st where
      "map_of (fst (run_pool (tl picks) (remove_nth k pending) s')) i = Some (fst (job st))"
      using less.hyps [OF length_remove_nth [OF k] d] by blast
    then show ?thesis using ne by (auto simp: unf)
  qed
qed

lemma length_remove_nth_eq: "k < length xs \<Longrightarrow> length (remove_nth k xs) = length xs - 1"
  by (induction k xs rule: remove_nth.induct) simp_all

lemma map_of_nth:
  "distinct (map fst xs) \<Longrightarrow> k < length xs \<Longrightarrow> map_of xs (fst (xs ! k)) = Some (snd (xs ! k))"
  by (simp add: nth_mem)

lemma length_run_pool: "length (fst (run_pool picks pending s)) = length pending"
proof (induction "length pending" arbitrary: picks pending s rule: less_induct)
  case less
  show ?case
  proof (cases "pending = []")
    case True
    then show ?thesis by (simp add: run_pool_Nil)
  next
    case False
    define k where "k = next_pick picks (length pending)"
    have k: "k < length pending"
      using False by (simp add: k_def next_pick_less)
    show ?thesis
      using less.hyps [OF length_remove_nth [OF k]] k False
      by (simp add: run_pool_step [OF False] k_def [symmetric] length_remove_nth_eq)
  qed
qed

lemma run_pool_chain:
  "\<exists>sts. length sts = Suc (length pending) \<and> sts ! 0 = s
     \<and> sts ! length pending = snd (run_pool picks pending s)
     \<and> (\<forall>k<length pending. \<exists>job.
            (fst (fst (run_pool picks pending s) ! k), job) \<in> set pending
          \<and> job (sts ! k) = (snd (fst (run_pool picks pending s) ! k), sts ! Suc k))"
proof (induction "length pending" arbitrary: picks pending s rule: less_induct)
  case less
  show ?case
  proof (cases "pending = []")
    case True
    then show ?thesis by (intro exI [of _ "[s]"]) (simp add: run_pool_Nil)
  next
    case False
    define k0 where "k0 = next_pick picks (length pending)"
    define s1 where "s1 = snd (snd (pending ! k0) s)"
    define rest where "rest = remove_nth k0 pending"
    have k0: "k0 < length pending"
      using False by (simp add: k0_def next_pick_less)
    have lr: "length rest = length pending - 1"
      using k0 by (simp add: rest_def length_remove_nth_eq)
    have sub: "set rest \<subseteq> set pending"
      using set_remove_nth [OF k0] by (auto simp: rest_def)
    have unf: "run_pool picks pending s
             = ((fst (pending ! k0), fst (snd (pending ! k0) s))
                  # fst (run_pool (tl picks) rest s1),
                snd (run_pool (tl picks) rest s1))"
      by (simp add: run_pool_step [OF False] k0_def [symmetric] s1_def [symmetric]
          rest_def [symmetric])
    have "length rest < length pending" using lr False by (cases pending) simp_all
    from less.hyps [OF this, of s1 "tl picks"] obtain sts' where
      l: "length sts' = Suc (length rest)" and z: "sts' ! 0 = s1"
      and e: "sts' ! length rest = snd (run_pool (tl picks) rest s1)"
      and c: "\<forall>k<length rest. \<exists>job.
            (fst (fst (run_pool (tl picks) rest s1) ! k), job) \<in> set rest
          \<and> job (sts' ! k) = (snd (fst (run_pool (tl picks) rest s1) ! k), sts' ! Suc k)"
      by blast
    have n: "length pending = Suc (length rest)"
      using lr False by (cases pending) simp_all
    have "\<forall>k<length pending. \<exists>job.
            (fst (fst (run_pool picks pending s) ! k), job) \<in> set pending
          \<and> job ((s # sts') ! k) = (snd (fst (run_pool picks pending s) ! k), (s # sts') ! Suc k)"
    proof (intro allI impI)
      fix k assume kk: "k < length pending"
      show "\<exists>job. (fst (fst (run_pool picks pending s) ! k), job) \<in> set pending
          \<and> job ((s # sts') ! k) = (snd (fst (run_pool picks pending s) ! k), (s # sts') ! Suc k)"
      proof (cases k)
        case 0
        have "(fst (pending ! k0), snd (pending ! k0)) \<in> set pending"
          using k0 by simp
        moreover have "snd (pending ! k0) s = (fst (snd (pending ! k0) s), s1)"
          by (simp add: s1_def)
        ultimately show ?thesis using 0 z
          by (intro exI [of _ "snd (pending ! k0)"]) (simp add: unf)
      next
        case (Suc k')
        then have "k' < length rest" using kk n by simp
        then obtain job where
          "(fst (fst (run_pool (tl picks) rest s1) ! k'), job) \<in> set rest"
          "job (sts' ! k') = (snd (fst (run_pool (tl picks) rest s1) ! k'), sts' ! Suc k')"
          using c by blast
        then show ?thesis using Suc sub by (auto simp: unf)
      qed
    qed
    moreover have "length (s # sts') = Suc (length pending)" using l n by simp
    moreover have "(s # sts') ! 0 = s" by simp
    moreover have "(s # sts') ! length pending = snd (run_pool picks pending s)"
      using e n by (simp add: unf)
    ultimately show ?thesis by blast
  qed
qed

section \<open>Properties of the question adapter\<close>

lemma await_all_total:
  "\<forall>i\<in>set idx. futures i \<noteq> None \<Longrightarrow> await_all futures idx acc \<noteq> None"
  by (induction idx arbitrary: acc) (auto split: option.splits sum.splits)

lemma await_all_cong:
  "\<forall>i\<in>set idx. f i = g i \<Longrightarrow> await_all f idx acc = await_all g idx acc"
  by (induction idx arbitrary: acc) (auto split: option.splits sum.splits)

lemma await_all_outcome:
  "\<forall>i\<in>set idx. \<exists>ds. futures i = Some (Inr ds)
        \<and> collect_field (str_of ''generated_text'') ds = Inr (g i) \<Longrightarrow>
   await_all futures idx acc = Some (Inr (acc @ concat (map g idx)))"
proof (induction idx arbitrary: acc)
  case Nil
  then show ?case by simp
next
  case (Cons i idx)
  then obtain ds where "futures i = Some (Inr ds)"
    and "collect_field (str_of ''generated_text'') ds = Inr (g i)"
    by auto
  moreover have "await_all futures idx (acc @ g i) = Some (Inr ((acc @ g i) @ concat (map g idx)))"
    using Cons by simp
  ultimately show ?case by simp
qed

lemma await_all_groups:
  "await_all futures idx acc = Some (Inr qs) \<Longrightarrow>
   \<exists>groups. qs = acc @ concat groups \<and> length groups = length idx
     \<and> (\<forall>j<length idx. \<exists>ds. futures (idx ! j) = Some (Inr ds)
            \<and> collect_field (str_of ''generated_text'') ds = Inr (groups ! j))"
proof (induction idx arbitrary: acc)
  case Nil
  then show ?case by simp
next
  case (Cons i idx)
  from Cons.prems obtain ds g where f: "futures i = Some (Inr ds)"
    and c: "collect_field (str_of ''generated_text'') ds = Inr g"
    and r: "await_all futures idx (acc @ g) = Some (Inr qs)"
    by (auto split: option.splits sum.splits)
  from Cons.IH [OF r] obtain groups where
    g: "qs = (acc @ g) @ concat groups" "length groups = length idx"
    "\<forall>j<length idx. \<exists>ds. futures (idx ! j) = Some (Inr ds)
        \<and> collect_field (str_of ''generated_text'') ds = Inr (groups ! j)"
    by blast
  have "\<forall>j<length (i # idx). \<exists>ds. futures ((i # idx) ! j) = Some (Inr ds)
          \<and> collect_field (str_of ''generated_text'') ds = Inr ((g # groups) ! j)"
  proof (intro allI impI)
    fix j assume "j < length (i # idx)"
    then show "\<exists>ds. futures ((i # idx) ! j) = Some (Inr ds)
          \<and> collect_field (str_of ''generated_text'') ds = Inr ((g # groups) ! j)"
      using f c g(3) by (cases j) auto
  qed
  moreover have "qs = acc @ concat (g # groups)" and "length (g # groups) = length (i # idx)"
    using g by simp_all
  ultimately show ?case by blast
qed


lemma length_concat_uniform:
  "\<forall>i<length gs. length (gs ! i) = k \<Longrightarrow> length (concat gs) = length gs * k"
proof (induction gs)
  case Nil
  then show ?case by simp
next
  case (Cons g gs)
  have "length g = k" using Cons.prems by auto
  moreover have "\<forall>i<length gs. length (gs ! i) = k"
    using Cons.prems by auto
  ultimately show ?case using Cons.IH by simp
qed

lemma last_prompt: "chunk \<noteq> [] \<Longrightarrow> last (prompt chunk) = last chunk"
  by (simp add: prompt_def)

lemma question_list_futures:
  "\<exists>futures s' order.
     question_list m picks t s =
       (case await_all futures [0..<length (text_chunks t)] [] of
          None \<Rightarrow> None
        | Some r \<Rightarrow> Some (r, s', order))
     \<and> (\<forall>i<length (text_chunks t). \<exists>st. futures i =
           Some (fst (question_generator m (prompt (text_chunks t ! i)) 120 3 True st)))
     \<and> distinct order \<and> set order = {..<length (text_chunks t)}"
proof -
  define jobs where
    "jobs = map (\<lambda>chunk. question_generator m (prompt chunk) 120 3 True) (text_chunks t)"
  define run where "run = run_pool picks (enumerate 0 jobs) s"
  have n: "length jobs = length (text_chunks t)" by (simp add: jobs_def)
  have idx: "map fst (enumerate 0 jobs) = [0..<length (text_chunks t)]"
    by (simp add: n)
  have d: "distinct (map fst (enumerate 0 jobs))" by (simp add: idx)
  have ql: "question_list m picks t s =
       (case await_all (map_of (fst run)) [0..<length (text_chunks t)] [] of
          None \<Rightarrow> None
        | Some r \<Rightarrow> Some (r, snd run, map fst (fst run)))"
    unfolding question_list_def Let_def jobs_def [symmetric] run_def [symmetric] idx
    by (simp add: split_beta)
  have fut: "\<forall>i<length (text_chunks t). \<exists>st. map_of (fst run) i =
           Some (fst (question_generator m (prompt (text_chunks t ! i)) 120 3 True st))"
  proof (intro allI impI)
    fix i assume i: "i < length (text_chunks t)"
    then have "(i, jobs ! i) \<in> set (enumerate 0 jobs)"
      by (simp add: in_set_enumerate_eq n)
    from run_pool_lookup [OF d this, of picks s]
    show "\<exists>st. map_of (fst run) i =
           Some (fst (question_generator m (prompt (text_chunks t ! i)) 120 3 True st))"
      using i by (simp add: run_def jobs_def)
  qed
  have ord: "distinct (map fst (fst run)) \<and> set (map fst (fst run)) = {..<length (text_chunks t)}"
    using run_pool_order [OF d, of picks s] by (simp add: run_def [symmetric] n lessThan_atLeast0)
  show ?thesis using ql fut ord by blast
qed

lemma question_list_total: "\<exists>r s' order. question_list m picks t s = Some (r, s', order)"
proof -
  obtain futures s' order where
    ql: "question_list m picks t s =
       (case await_all futures [0..<length (text_chunks t)] [] of
          None \<Rightarrow> None
        | Some r \<Rightarrow> Some (r, s', order))"
    and fut: "\<forall>i<length (text_chunks t). \<exists>st. futures i =
           Some (fst (question_generator m (prompt (text_chunks t ! i)) 120 3 True st))"
    using question_list_futures [of m picks t s] by blast
  have "\<forall>i\<in>set [0..<length (text_chunks t)]. futures i \<noteq> None"
    using fut by auto
  then have "await_all futures [0..<length (text_chunks t)] [] \<noteq> None"
    by (rule await_all_total)
  then show ?thesis using ql by auto
qed

lemma question_list_grouping:
  assumes "question_list m picks t s = Some (Inr qs, s', order)"
  shows "\<exists>groups. qs = concat groups \<and> length groups = length (text_chunks t)
     \<and> (\<forall>i<length (text_chunks t). \<exists>st ds.
           fst (question_generator m (prompt (text_chunks t ! i)) 120 3 True st) = Inr ds
           \<and> collect_field (str_of ''generated_text'') ds = Inr (groups ! i))
     \<and> distinct order \<and> set order = {..<length (text_chunks t)}"
proof -
  obtain futures s0 order0 where
    ql: "question_list m picks t s =
       (case await_all futures [0..<length (text_chunks t)] [] of
          None \<Rightarrow> None
        | Some r \<Rightarrow> Some (r, s0, order0))"
    and fut: "\<forall>i<length (text_chunks t). \<exists>st. futures i =
           Some (fst (question_generator m (prompt (text_chunks t ! i)) 120 3 True st))"
    and ord: "distinct order0" "set order0 = {..<length (text_chunks t)}"
    using question_list_futures [of m picks t s] by blast
  from ql assms have aw: "await_all futures [0..<length (text_chunks t)] [] = Some (Inr qs)"
    and o: "order = order0"
    by (auto split: option.splits)
  from await_all_groups [OF aw] obtain groups where
    g: "qs = concat groups" "length groups = length (text_chunks t)"
    "\<forall>j<length (text_chunks t). \<exists>ds. futures j = Some (Inr ds)
        \<and> collect_field (str_of ''generated_text'') ds = Inr (groups ! j)"
    by auto
  have "\<forall>i<length (text_chunks t). \<exists>st ds.
           fst (question_generator m (prompt (text_chunks t ! i)) 120 3 True st) = Inr ds
           \<and> collect_field (str_of ''generated_text'') ds = Inr (groups ! i)"
  proof (intro allI impI)
    fix i assume i: "i < length (text_chunks t)"
    then obtain ds where "futures i = Some (Inr ds)"
      and c: "collect_field (str_of ''generated_text'') ds = Inr (groups ! i)"
      using g(3) by blast
    moreover obtain st where "futures i =
           Some (fst (question_generator m (prompt (text_chunks t ! i)) 120 3 True st))"
      using fut i by blast
    ultimately have "fst (question_generator m (prompt (text_chunks t ! i)) 120 3 True st) = Inr ds"
      by simp
    then show "\<exists>st ds.
           fst (question_generator m (prompt (text_chunks t ! i)) 120 3 True st) = Inr ds
           \<and> collect_field (str_of ''generated_text'') ds = Inr (groups ! i)"
      using c by blast
  qed
  then show ?thesis using g(1,2) ord o by blast
qed

lemma question_list_deterministic:
  assumes det: "\<forall>p s1 s2. fst (question_generator m p 120 3 True s1)
                         = fst (question_generator m p 120 3 True s2)"
  shows "map_option fst (question_list m picks1 t s1) = map_option fst (question_list m picks2 t s2)"
proof -
  obtain f1 a1 o1 where
    q1: "question_list m picks1 t s1 =
       (case await_all f1 [0..<length (text_chunks t)] [] of
          None \<Rightarrow> None | Some r \<Rightarrow> Some (r, a1, o1))"
    and fut1: "\<forall>i<length (text_chunks t). \<exists>st. f1 i =
           Some (fst (question_generator m (prompt (text_chunks t ! i)) 120 3 True st))"
    using question_list_futures [of m picks1 t s1] by blast
  obtain f2 a2 o2 where
    q2: "question_list m picks2 t s2 =
       (case await_all f2 [0..<length (text_chunks t)] [] of
          None \<Rightarrow> None | Some r \<Rightarrow> Some (r, a2, o2))"
    and fut2: "\<forall>i<length (text_chunks t). \<exists>st. f2 i =
           Some (fst (question_generator m (prompt (text_chunks t ! i)) 120 3 True st))"
    using question_list_futures [of m picks2 t s2] by blast
  have "\<forall>i\<in>set [0..<length (text_chunks t)]. f1 i = f2 i"
  proof
    fix i assume "i \<in> set [0..<length (text_chunks t)]"
    then have i: "i < length (text_chunks t)" by simp
    from fut1 i obtain st1 where
      "f1 i = Some (fst (question_generator m (prompt (text_chunks t ! i)) 120 3 True st1))"
      by blast
    moreover from fut2 i obtain st2 where
      "f2 i = Some (fst (question_generator m (prompt (text_chunks t ! i)) 120 3 True st2))"
      by blast
    ultimately show "f1 i = f2 i" using det by metis
  qed
  then have "await_all f1 [0..<length (text_chunks t)] [] = await_all f2 [0..<length (text_chunks t)] []"
    by (rule await_all_cong)
  then show ?thesis using q1 q2 by (auto split: option.splits)
qed

lemma generate_questions_eq:
  "generate_questions m picks t s =
     map_option (\<lambda>(r, s', order).
        (case r of Inl e \<Rightarrow> Inl e | Inr qs \<Rightarrow> Inr (py_join NL qs), s', order))
       (question_list m picks t s)"
  by (auto simp: generate_questions_def split: option.splits sum.splits)

lemma generate_questions_total:
  "\<exists>r s' order. generate_questions m picks t s = Some (r, s', order)"
proof -
  obtain r s' order where "question_list m picks t s = Some (r, s', order)"
    using question_list_total [of m picks t s] by blast
  then show ?thesis by (cases r) (simp_all add: generate_questions_def)
qed

lemma generate_questions_order:
  assumes "generate_questions m picks t s = Some (r, s', order)"
  shows "distinct order \<and> set order = {..<length (text_chunks t)}"
proof -
  obtain futures s0 order0 where
    ql: "question_list m picks t s =
       (case await_all futures [0..<length (text_chunks t)] [] of
          None \<Rightarrow> None
        | Some r \<Rightarrow> Some (r, s0, order0))"
    and ord: "distinct order0" "set order0 = {..<length (text_chunks t)}"
    using question_list_futures [of m picks t s] by blast
  from assms ql have "order = order0"
    by (auto simp: generate_questions_def split: option.splits sum.splits)
  then show ?thesis using ord by simp
qed

lemma generate_questions_deterministic:
  assumes "\<forall>p s1 s2. fst (question_generator m p 120 3 True s1)
                      = fst (question_generator m p 120 3 True s2)"
    and "generate_questions m picks1 t s1 = Some (r1, a1, o1)"
    and "generate_questions m picks2 t s2 = Some (r2, a2, o2)"
  shows "r1 = r2"
proof -
  have "map_option fst (question_list m picks1 t s1) = map_option fst (question_list m picks2 t s2)"
    using assms(1) by (rule question_list_deterministic)
  then show ?thesis
    using assms(2,3) by (auto simp: generate_questions_def split: option.splits sum.splits)
qed

lemma generate_questions_empty: "generate_questions m picks [] s = Some (Inr [], s, [])"
  by (simp add: generate_questions_def question_list_def text_chunks_def slices_from_beyond
      run_pool_Nil)


lemma py_join_terminated:
  "qs \<noteq> [] \<Longrightarrow> py_join sep qs @ sep = concat (map (\<lambda>q. q @ sep) qs)"
  by (induction sep qs rule: py_join.induct) simp_all

lemma collect_field_all:
  "collect_field key ds = Inr vs \<Longrightarrow> \<forall>j<length ds. (ds ! j) key = Some (vs ! j)"
  using collect_field_nth by blast

lemma question_list_chain:
  "\<exists>futures s' order sts.
     question_list m picks t s =
       (case await_all futures [0..<length (text_chunks t)] [] of
          None \<Rightarrow> None
        | Some r \<Rightarrow> Some (r, s', order))
     \<and> distinct order \<and> set order = {..<length (text_chunks t)}
     \<and> length order = length (text_chunks t)
     \<and> length sts = Suc (length (text_chunks t)) \<and> sts ! 0 = s
     \<and> sts ! length (text_chunks t) = s'
     \<and> (\<forall>k<length (text_chunks t).
           futures (order ! k) =
             Some (fst (question_generator m (prompt (text_chunks t ! (order ! k))) 120 3 True
                         (sts ! k)))
         \<and> sts ! Suc k =
             snd (question_generator m (prompt (text_chunks t ! (order ! k))) 120 3 True
                    (sts ! k)))"
proof -
  let ?n = "length (text_chunks t)"
  define jobs where
    "jobs = map (\<lambda>chunk. question_generator m (prompt chunk) 120 3 True) (text_chunks t)"
  define run where "run = run_pool picks (enumerate 0 jobs) s"
  have n: "length jobs = ?n" by (simp add: jobs_def)
  have idx: "map fst (enumerate 0 jobs) = [0..<?n]"
    by (simp add: n)
  have d: "distinct (map fst (enumerate 0 jobs))" by (simp add: idx)
  have ql: "question_list m picks t s =
       (case await_all (map_of (fst run)) [0..<?n] [] of
          None \<Rightarrow> None
        | Some r \<Rightarrow> Some (r, snd run, map fst (fst run)))"
    unfolding question_list_def Let_def jobs_def [symmetric] run_def [symmetric] idx
    by (simp add: split_beta)
  have ord: "distinct (map fst (fst run))" "set (map fst (fst run)) = {..<?n}"
    using run_pool_order [OF d, of picks s] by (simp_all add: run_def [symmetric] n lessThan_atLeast0)
  have len: "length (fst run) = ?n"
    by (simp add: run_def length_run_pool n)
  from run_pool_chain [of "enumerate 0 jobs" s picks] obtain sts where
    l: "length sts = Suc ?n" and z: "sts ! 0 = s" and e: "sts ! ?n = snd run"
    and c: "\<forall>k<?n. \<exists>job. (fst (fst run ! k), job) \<in> set (enumerate 0 jobs)
          \<and> job (sts ! k) = (snd (fst run ! k), sts ! Suc k)"
    by (auto simp: run_def [symmetric] n)
  have step: "\<forall>k<?n.
           map_of (fst run) (map fst (fst run) ! k) =
             Some (fst (question_generator m (prompt (text_chunks t ! (map fst (fst run) ! k)))
                         120 3 True (sts ! k)))
         \<and> sts ! Suc k =
             snd (question_generator m (prompt (text_chunks t ! (map fst (fst run) ! k)))
                    120 3 True (sts ! k))"
  proof (intro allI impI)
    fix k assume k: "k < ?n"
    let ?i = "fst (fst run ! k)"
    from c k obtain job where mem: "(?i, job) \<in> set (enumerate 0 jobs)"
      and j: "job (sts ! k) = (snd (fst run ! k), sts ! Suc k)"
      by blast
    from mem have i: "?i < ?n" and job: "job = jobs ! ?i"
      by (simp_all add: in_set_enumerate_eq n)
    have jq: "job = question_generator m (prompt (text_chunks t ! ?i)) 120 3 True"
      using job i by (simp add: jobs_def)
    have m: "map_of (fst run) ?i = Some (snd (fst run ! k))"
      using map_of_nth [OF ord(1), of k] k len by simp
    have o: "map fst (fst run) ! k = ?i" using k len by simp
    show "map_of (fst run) (map fst (fst run) ! k) =
             Some (fst (question_generator m (prompt (text_chunks t ! (map fst (fst run) ! k)))
                         120 3 True (sts ! k)))
         \<and> sts ! Suc k =
             snd (question_generator m (prompt (text_chunks t ! (map fst (fst run) ! k)))
                    120 3 True (sts ! k))"
      unfolding o using m j jq by simp
  qed
  have lo: "length (map fst (fst run)) = ?n" using len by simp
  show ?thesis
    using ql ord lo l z e step by blast
qed

section \<open>Properties of the report file\<close>

lemma translate_newlines_append:
  "translate_newlines p (a @ b) = translate_newlines p a @ translate_newlines p b"
  by (simp add: translate_newlines_def)

lemma utf8_encode_append:
  "utf8_encode (a @ b) =
     (case utf8_encode a of
        Inl e \<Rightarrow> Inl e
      | Inr x \<Rightarrow> (case utf8_encode b of Inl e \<Rightarrow> Inl e | Inr y \<Rightarrow> Inr (x @ y)))"
  by (induction a) (auto split: option.splits sum.splits)

lemma encode_text_append:
  "encode_text p (a @ b) =
     (case encode_text p a of
        Inl e \<Rightarrow> Inl e
      | Inr x \<Rightarrow> (case encode_text p b of Inl e \<Rightarrow> Inl e | Inr y \<Rightarrow> Inr (x @ y)))"
  unfolding encode_text_def by (simp add: translate_newlines_append utf8_encode_append)

lemma encode_text_NL: "encode_text p NL = Inr (map of_nat (linesep p))"
  by (cases p) (simp_all add: encode_text_def translate_newlines_def utf8_char_def)

lemma encode_text_emoji:
  "encode_text p [0x1F4DD] = Inr [0xF0, 0x9F, 0x93, 0x9D]"
  "encode_text p [0x1F4DC] = Inr [0xF0, 0x9F, 0x93, 0x9C]"
  "encode_text p [0x1F914] = Inr [0xF0, 0x9F, 0xA4, 0x94]"
  by (simp_all add: encode_text_def translate_newlines_def utf8_char_def)

lemma encode_text_labels:
  "encode_text p (str_of '' Transcription:'') = Inr (map of_char '' Transcription:'')"
  "encode_text p (str_of '' Summary:'') = Inr (map of_char '' Summary:'')"
  "encode_text p (str_of '' Practice Questions:'') = Inr (map of_char '' Practice Questions:'')"
  by (simp_all add: encode_text_def translate_newlines_def utf8_char_def str_of_def)

lemma encode_text_ascii:
  "encode_text p (str_of ''hello world'') = Inr (map of_char ''hello world'')"
  "encode_text p (str_of ''SUM'') = Inr (map of_char ''SUM'')"
  "encode_text p (str_of ''Q1'') = Inr (map of_char ''Q1'')"
  "encode_text p (str_of ''Q2'') = Inr (map of_char ''Q2'')"
  "encode_text p (str_of ''Q3'') = Inr (map of_char ''Q3'')"
  by (simp_all add: encode_text_def translate_newlines_def utf8_char_def str_of_def)

lemma encode_combined_text:
  "encode_text p (combined_text t sm q) =
     (case encode_text p t of
        Inl e \<Rightarrow> Inl e
      | Inr bt \<Rightarrow>
     (case encode_text p sm of
        Inl e \<Rightarrow> Inl e
      | Inr bs \<Rightarrow>
     (case encode_text p q of
        Inl e \<Rightarrow> Inl e
      | Inr bq \<Rightarrow>
          Inr ([0xF0, 0x9F, 0x93, 0x9D] @ map of_char '' Transcription:''
               @ map of_nat (linesep p) @ bt @ map of_nat (linesep p) @ map of_nat (linesep p)
               @ [0xF0, 0x9F, 0x93, 0x9C] @ map of_char '' Summary:''
               @ map of_nat (linesep p) @ bs @ map of_nat (linesep p) @ map of_nat (linesep p)
               @ [0xF0, 0x9F, 0xA4, 0x94] @ map of_char '' Practice Questions:''
               @ map of_nat (linesep p) @ bq))))"
  by (cases "encode_text p t"; cases "encode_text p sm"; cases "encode_text p q";
      simp only: combined_text_def encode_text_append encode_text_emoji encode_text_labels
        encode_text_NL sum.case)

lemma write_file_Inr:
  "write_file file_path content w = (Inr u, w') \<longleftrightarrow>
     open_error w file_path = None
     \<and> (\<exists>bytes. encode_text (platform w) content = Inr bytes
           \<and> w' = w\<lparr>files := (files w)(file_path \<mapsto> bytes)\<rparr>)"
  by (auto simp: write_file_def split: option.splits sum.splits)

lemma write_file_Inl:
  "write_file file_path content w = (Inl e, w') \<longleftrightarrow>
     (open_error w file_path = Some e \<and> w' = w)
     \<or> (open_error w file_path = None \<and> encode_text (platform w) content = Inl e
        \<and> w' = w\<lparr>files := (files w)(file_path \<mapsto> [])\<rparr>)"
  by (auto simp: write_file_def split: option.splits sum.splits)

section \<open>Properties of the orchestrator\<close>

lemma set_merge_by: "set (merge_by bs xs ys) = set xs \<union> set ys"
  by (induction bs xs ys rule: merge_by.induct) auto

lemma process_audio_transcribe_error:
  "transcribe_audio m audio = Inl e \<Longrightarrow>
   process_audio m sch audio w = Some (Inl e, w\<lparr>calls := calls w @ [Whisper audio]\<rparr>)"
  by (simp add: process_audio_def)

lemma process_audio_summarize_error:
  "transcribe_audio m audio = Inr t \<Longrightarrow>
   generate_questions m (gen_picks sch) t (sampler w) = Some (qr, s', order) \<Longrightarrow>
   summarize_text m t = Inl e \<Longrightarrow>
   process_audio m sch audio w =
     Some (Inl e, w\<lparr>sampler := s',
                     calls := calls w @ [Whisper audio]
                       @ merge_by (pool_merge sch) [Summarizer (text_chunks t)]
                           (map Generator order)\<rparr>)"
  by (simp add: process_audio_def)

lemma process_audio_questions_error:
  "transcribe_audio m audio = Inr t \<Longrightarrow>
   generate_questions m (gen_picks sch) t (sampler w) = Some (Inl e, s', order) \<Longrightarrow>
   summarize_text m t = Inr sm \<Longrightarrow>
   process_audio m sch audio w =
     Some (Inl e, w\<lparr>sampler := s',
                     calls := calls w @ [Whisper audio]
                       @ merge_by (pool_merge sch) [Summarizer (text_chunks t)]
                           (map Generator order)\<rparr>)"
  by (simp add: process_audio_def)

lemma process_audio_write:
  "transcribe_audio m audio = Inr t \<Longrightarrow>
   generate_questions m (gen_picks sch) t (sampler w) = Some (Inr q, s', order) \<Longrightarrow>
   summarize_text m t = Inr sm \<Longrightarrow>
   process_audio m sch audio w =
     (case write_file (str_of ''lecture_summary.txt'') (combined_text t sm q)
             (w\<lparr>sampler := s',
                calls := calls w @ [Whisper audio]
                  @ merge_by (pool_merge sch) [Summarizer (text_chunks t)]
                      (map Generator order)\<rparr>) of
        (Inl e, w'') \<Rightarrow> Some (Inl e, w'')
      | (Inr u, w'') \<Rightarrow> Some (Inr (t, sm, q, str_of ''lecture_summary.txt''), w''))"
  by (simp add: process_audio_def Let_def)

lemma process_audio_total: "\<exists>r w'. process_audio m sch audio w = Some (r, w')"
proof (cases "transcribe_audio m audio")
  case (Inl e)
  then show ?thesis by (simp add: process_audio_transcribe_error)
next
  case (Inr t)
  obtain qr s' order where
    gq: "generate_questions m (gen_picks sch) t (sampler w) = Some (qr, s', order)"
    using generate_questions_total [of m "gen_picks sch" t "sampler w"] by blast
  show ?thesis
  proof (cases "summarize_text m t")
    case (Inl e)
    then show ?thesis using Inr gq by (simp add: process_audio_summarize_error)
  next
    case sm: (Inr sm)
    show ?thesis
    proof (cases qr)
      case (Inl e)
      then show ?thesis using Inr gq sm by (simp add: process_audio_questions_error)
    next
      case q: (Inr q)
      let ?W = "w\<lparr>sampler := s',
                calls := calls w @ [Whisper audio]
                  @ merge_by (pool_merge sch) [Summarizer (text_chunks t)]
                      (map Generator order)\<rparr>"
      obtain r0 w0 where
        wf: "write_file (str_of ''lecture_summary.txt'') (combined_text t sm q) ?W = (r0, w0)"
        by (cases "write_file (str_of ''lecture_summary.txt'') (combined_text t sm q) ?W")
      have pa: "process_audio m sch audio w =
         (case (r0, w0) of
            (Inl e, w'') \<Rightarrow> Some (Inl e, w'')
          | (Inr u, w'') \<Rightarrow> Some (Inr (t, sm, q, str_of ''lecture_summary.txt''), w''))"
        using process_audio_write [of m audio t sch w q s' order sm] Inr gq sm q
        by (simp only: wf)
      show ?thesis by (cases r0) (simp_all add: pa)
    qed
  qed
qed

lemma process_audio_Inr:
  assumes "process_audio m sch audio w = Some (Inr (t, sm, q, file_path), w')"
  shows "file_path = str_of ''lecture_summary.txt''
    \<and> transcribe_audio m audio = Inr t \<and> summarize_text m t = Inr sm
    \<and> open_error w file_path = None
    \<and> (\<exists>s' order bytes.
          generate_questions m (gen_picks sch) t (sampler w) = Some (Inr q, s', order)
        \<and> encode_text (platform w) (combined_text t sm q) = Inr bytes
        \<and> w' = w\<lparr>sampler := s',
                   calls := calls w @ [Whisper audio]
                     @ merge_by (pool_merge sch) [Summarizer (text_chunks t)]
                         (map Generator order),
                   files := (files w)(file_path \<mapsto> bytes)\<rparr>)"
proof (cases "transcribe_audio m audio")
  case (Inl e)
  then show ?thesis using assms by (simp add: process_audio_transcribe_error)
next
  case (Inr t0)
  obtain qr s' order where
    gq: "generate_questions m (gen_picks sch) t0 (sampler w) = Some (qr, s', order)"
    using generate_questions_total [of m "gen_picks sch" t0 "sampler w"] by blast
  show ?thesis
  proof (cases "summarize_text m t0")
    case (Inl e)
    then show ?thesis using Inr gq assms by (simp add: process_audio_summarize_error)
  next
    case sm0: (Inr sm0)
    show ?thesis
    proof (cases qr)
      case (Inl e)
      then show ?thesis using Inr gq sm0 assms by (simp add: process_audio_questions_error)
    next
      case q0: (Inr q0)
      let ?W = "w\<lparr>sampler := s',
                calls := calls w @ [Whisper audio]
                  @ merge_by (pool_merge sch) [Summarizer (text_chunks t0)]
                      (map Generator order)\<rparr>"
      obtain r0 w0 where
        wf0: "write_file (str_of ''lecture_summary.txt'') (combined_text t0 sm0 q0) ?W = (r0, w0)"
        by (cases "write_file (str_of ''lecture_summary.txt'') (combined_text t0 sm0 q0) ?W")
      have pa: "process_audio m sch audio w =
         (case (r0, w0) of
            (Inl e, w'') \<Rightarrow> Some (Inl e, w'')
          | (Inr u, w'') \<Rightarrow> Some (Inr (t0, sm0, q0, str_of ''lecture_summary.txt''), w''))"
        using process_audio_write [of m audio t0 sch w q0 s' order sm0] Inr gq sm0 q0
        by (simp only: wf0)
      have "\<exists>u. r0 = Inr u" and "w0 = w'"
        and eq: "t0 = t" "sm0 = sm" "q0 = q" "file_path = str_of ''lecture_summary.txt''"
        using assms by (cases r0; simp add: pa)+
      then obtain u where
        wf: "write_file (str_of ''lecture_summary.txt'') (combined_text t0 sm0 q0) ?W = (Inr u, w')"
        using wf0 by blast
      from wf obtain bytes where
        "open_error w (str_of ''lecture_summary.txt'') = None"
        "encode_text (platform w) (combined_text t0 sm0 q0) = Inr bytes"
        "w' = ?W\<lparr>files := (files w)(str_of ''lecture_summary.txt'' \<mapsto> bytes)\<rparr>"
        by (auto simp: write_file_Inr)
      then show ?thesis using Inr gq sm0 q0 eq by auto
    qed
  qed
qed

lemma process_audio_outcome:
  assumes "process_audio m sch audio w = Some (r, w')"
  shows "open_error w' = open_error w \<and> platform w' = platform w
    \<and> (case transcribe_audio m audio of
         Inl e \<Rightarrow> r = Inl e \<and> files w' = files w
       | Inr t \<Rightarrow>
           (\<exists>qr s' order.
               generate_questions m (gen_picks sch) t (sampler w) = Some (qr, s', order)
             \<and> sampler w' = s'
             \<and> (case summarize_text m t of
                  Inl e \<Rightarrow> r = Inl e \<and> files w' = files w
                | Inr sm \<Rightarrow>
                    (case qr of
                       Inl e \<Rightarrow> r = Inl e \<and> files w' = files w
                     | Inr q \<Rightarrow>
                         (case open_error w (str_of ''lecture_summary.txt'') of
                            Some e \<Rightarrow> r = Inl e \<and> files w' = files w
                          | None \<Rightarrow>
                              (case encode_text (platform w) (combined_text t sm q) of
                                 Inl e \<Rightarrow> r = Inl e
                                   \<and> files w' = (files w)(str_of ''lecture_summary.txt'' \<mapsto> [])
                               | Inr bytes \<Rightarrow>
                                   r = Inr (t, sm, q, str_of ''lecture_summary.txt'')
                                   \<and> files w' = (files w)(str_of ''lecture_summary.txt'' \<mapsto> bytes)))))))"
proof (cases "transcribe_audio m audio")
  case (Inl e)
  then show ?thesis using assms by (auto simp: process_audio_transcribe_error)
next
  case (Inr t)
  obtain qr s' order where
    gq: "generate_questions m (gen_picks sch) t (sampler w) = Some (qr, s', order)"
    using generate_questions_total [of m "gen_picks sch" t "sampler w"] by blast
  show ?thesis
  proof (cases "summarize_text m t")
    case (Inl e)
    then show ?thesis
      using Inr gq assms by (auto simp: process_audio_summarize_error)
  next
    case sm: (Inr sm)
    show ?thesis
    proof (cases qr)
      case (Inl e)
      then show ?thesis
        using Inr gq sm assms by (auto simp: process_audio_questions_error)
    next
      case q: (Inr q)
      let ?W = "w\<lparr>sampler := s',
                calls := calls w @ [Whisper audio]
                  @ merge_by (pool_merge sch) [Summarizer (text_chunks t)]
                      (map Generator order)\<rparr>"
      obtain r0 w0 where
        wf: "write_file (str_of ''lecture_summary.txt'') (combined_text t sm q) ?W = (r0, w0)"
        by (cases "write_file (str_of ''lecture_summary.txt'') (combined_text t sm q) ?W")
      have pa: "process_audio m sch audio w =
         (case (r0, w0) of
            (Inl e, w'') \<Rightarrow> Some (Inl e, w'')
          | (Inr u, w'') \<Rightarrow> Some (Inr (t, sm, q, str_of ''lecture_summary.txt''), w''))"
        using process_audio_write [of m audio t sch w q s' order sm] Inr gq sm q
        by (simp only: wf)
      show ?thesis
      proof (cases r0)
        case (Inl e)
        then have "r = Inl e" and "w' = w0" using assms pa by simp_all
        then show ?thesis
          using wf Inl Inr gq sm q by (auto simp: write_file_Inl)
      next
        case u: (Inr u)
        then have "r = Inr (t, sm, q, str_of ''lecture_summary.txt'')" and "w' = w0"
          using assms pa by simp_all
        then show ?thesis
          using wf u Inr gq sm q by (auto simp: write_file_Inr)
      qed
    qed
  qed
qed

lemma process_audio_calls:
  assumes "process_audio m sch audio w = Some (r, w')"
  shows "case transcribe_audio m audio of
           Inl e \<Rightarrow> calls w' = calls w @ [Whisper audio]
         | Inr t \<Rightarrow>
             (\<exists>qr s' order.
                 generate_questions m (gen_picks sch) t (sampler w) = Some (qr, s', order)
               \<and> calls w' = calls w @ [Whisper audio]
                    @ merge_by (pool_merge sch) [Summarizer (text_chunks t)]
                        (map Generator order))"
proof (cases "transcribe_audio m audio")
  case (Inl e)
  then show ?thesis using assms by (auto simp: process_audio_transcribe_error)
next
  case (Inr t)
  obtain qr s' order where
    gq: "generate_questions m (gen_picks sch) t (sampler w) = Some (qr, s', order)"
    using generate_questions_total [of m "gen_picks sch" t "sampler w"] by blast
  show ?thesis
  proof (cases "summarize_text m t")
    case (Inl e)
    then show ?thesis
      using Inr gq assms by (auto simp: process_audio_summarize_error)
  next
    case sm: (Inr sm)
    show ?thesis
    proof (cases qr)
      case (Inl e)
      then show ?thesis
        using Inr gq sm assms by (auto simp: process_audio_questions_error)
    next
      case q: (Inr q)
      let ?W = "w\<lparr>sampler := s',
                calls := calls w @ [Whisper audio]
                  @ merge_by (pool_merge sch) [Summarizer (text_chunks t)]
                      (map Generator order)\<rparr>"
      obtain r0 w0 where
        wf: "write_file (str_of ''lecture_summary.txt'') (combined_text t sm q) ?W = (r0, w0)"
        by (cases "write_file (str_of ''lecture_summary.txt'') (combined_text t sm q) ?W")
      have pa: "process_audio m sch audio w =
         (case (r0, w0) of
            (Inl e, w'') \<Rightarrow> Some (Inl e, w'')
          | (Inr u, w'') \<Rightarrow> Some (Inr (t, sm, q, str_of ''lecture_summary.txt''), w''))"
        using process_audio_write [of m audio t sch w q s' order sm] Inr gq sm q
        by (simp only: wf)
      have "w' = w0" using assms pa by (cases r0) simp_all
      moreover have "calls w0 = calls ?W"
        using wf by (cases r0) (auto simp: write_file_Inl write_file_Inr)
      ultimately show ?thesis using Inr gq by simp
    qed
  qed
qed

lemma generate_questions_cong:
  assumes "\<And>c. c \<in> set (text_chunks t) \<Longrightarrow>
             question_generator m' (prompt c) 120 3 True = question_generator m (prompt c) 120 3 True"
  shows "generate_questions m' picks t s = generate_questions m picks t s"
proof -
  have "map (\<lambda>chunk. question_generator m' (prompt chunk) 120 3 True) (text_chunks t)
        = map (\<lambda>chunk. question_generator m (prompt chunk) 120 3 True) (text_chunks t)"
    using assms by (intro map_cong) simp_all
  then have "question_list m' picks t s = question_list m picks t s"
    unfolding question_list_def Let_def by (simp only:)
  then show ?thesis by (simp add: generate_questions_def)
qed

lemma process_audio_cong:
  assumes wh: "whisper_model m' audio = whisper_model m audio"
    and sm: "\<And>t. transcribe_audio m audio = Inr t \<Longrightarrow>
               summarizer m' (text_chunks t) 200 50 False
               = summarizer m (text_chunks t) 200 50 False"
    and qg: "\<And>t c. transcribe_audio m audio = Inr t \<Longrightarrow> c \<in> set (text_chunks t) \<Longrightarrow>
               question_generator m' (prompt c) 120 3 True
               = question_generator m (prompt c) 120 3 True"
  shows "process_audio m' sch audio w = process_audio m sch audio w"
proof -
  have tr: "transcribe_audio m' audio = transcribe_audio m audio"
    using wh by (simp add: transcribe_audio_def)
  show ?thesis
  proof (cases "transcribe_audio m audio")
    case (Inl e)
    then show ?thesis using tr by (simp add: process_audio_transcribe_error)
  next
    case (Inr t)
    have s: "summarize_text m' t = summarize_text m t"
      using sm [OF Inr] by (simp add: summarize_text_def)
    have g: "generate_questions m' (gen_picks sch) t (sampler w)
             = generate_questions m (gen_picks sch) t (sampler w)"
      using qg [OF Inr] by (rule generate_questions_cong)
    show ?thesis
      unfolding process_audio_def tr Inr sum.case g s by (rule refl)
  qed
qed

section \<open>Runs of the test doubles\<close>

lemma echo_run:
  "generate_questions echo_models [1] (replicate 1024 97 @ [98]) 0
   = Some (Inr (str_of ''a'' @ NL @ str_of ''a'' @ NL @ str_of ''a'' @ NL
               @ str_of ''b'' @ NL @ str_of ''b'' @ NL @ str_of ''b''), 2, [1, 0])"
  by (simp add: generate_questions_def question_list_def two_chunks last_prompt
       echo_models_def run_pool_step run_pool_Nil next_pick_def enumerate_eq_zip getitem_def
       str_of_def numeral_3_eq_3)

lemma stub_transcribe:
  "transcribe_audio (stub_models audio) audio = Inr (str_of ''hello world'')"
  by (simp add: transcribe_audio_def stub_models_def getitem_def)

lemma stub_summarize:
  "summarize_text (stub_models audio) (str_of ''hello world'') = Inr (str_of ''SUM'')"
  by (simp add: summarize_text_def stub_models_def text_chunks_single getitem_def str_of_def)

lemma stub_generate:
  "generate_questions (stub_models audio) picks (str_of ''hello world'') s
   = Some (Inr (str_of ''Q1'' @ NL @ str_of ''Q2'' @ NL @ str_of ''Q3''), Suc s, [0])"
proof -
  have c: "text_chunks (str_of ''hello world'') = [str_of ''hello world'']"
    by (rule text_chunks_single) (simp_all add: str_of_def)
  have k: "next_pick picks (Suc 0) = 0"
    by (cases picks) (simp_all add: next_pick_def)
  show ?thesis
    by (simp add: generate_questions_def question_list_def c stub_models_def
        run_pool_step run_pool_Nil k enumerate_eq_zip getitem_def)
qed

lemma stub_run:
  assumes "open_error w (str_of ''lecture_summary.txt'') = None"
    and "encode_text (platform w)
           (combined_text (str_of ''hello world'') (str_of ''SUM'')
              (str_of ''Q1'' @ NL @ str_of ''Q2'' @ NL @ str_of ''Q3'')) = Inr bytes"
  shows "process_audio (stub_models audio) sch audio w =
     Some (Inr (str_of ''hello world'', str_of ''SUM'',
                str_of ''Q1'' @ NL @ str_of ''Q2'' @ NL @ str_of ''Q3'',
                str_of ''lecture_summary.txt''),
           w\<lparr>sampler := Suc (sampler w),
              calls := calls w @ [Whisper audio]
                @ merge_by (pool_merge sch) [Summarizer (text_chunks (str_of ''hello world''))]
                    (map Generator [0]),
              files := (files w)(str_of ''lecture_summary.txt'' \<mapsto> bytes)\<rparr>)"
  using assms
  by (simp add: process_audio_write [OF stub_transcribe stub_generate stub_summarize]
      write_file_def)

lemma failing_generate:
  "generate_questions (failing_models e1 e2) picks (str_of ''a'') s = Some (Inl e2, Suc s, [0])"
proof -
  have k: "next_pick picks (Suc 0) = 0"
    by (cases picks) (simp_all add: next_pick_def)
  show ?thesis
    by (simp add: generate_questions_def question_list_def text_chunks_a failing_models_def
        run_pool_step run_pool_Nil k enumerate_eq_zip)
qed

lemma failing_run:
  "process_audio (failing_models e1 e2) sch (str_of ''a'') w =
     Some (Inl e1,
           w\<lparr>sampler := Suc (sampler w),
              calls := calls w @ [Whisper (str_of ''a'')]
                @ merge_by (pool_merge sch) [Summarizer [str_of ''a'']] [Generator 0]\<rparr>)"
proof -
  have tr: "transcribe_audio (failing_models e1 e2) (str_of ''a'') = Inr (str_of ''a'')"
    by (simp add: transcribe_audio_def failing_models_def getitem_def)
  have sm: "summarize_text (failing_models e1 e2) (str_of ''a'') = Inl e1"
    by (simp add: summarize_text_def failing_models_def)
  show ?thesis
    by (simp add: process_audio_summarize_error [OF tr failing_generate sm] text_chunks_a)
qed







lemma list3: "length xs = 3 \<Longrightarrow> \<forall>j<3. xs ! j = a \<Longrightarrow> xs = [a, a, a]"
  by (rule nth_equalityI) (auto simp: less_Suc_eq numeral_3_eq_3)

lemma list2: "length xs = 2 \<Longrightarrow> xs = [xs ! 0, xs ! 1]"
  by (rule nth_equalityI) (auto simp: less_Suc_eq numeral_2_eq_2)

lemma echo_answer:
  "fst (question_generator echo_models p 120 3 True st)
   = Inr [[str_of ''generated_text'' \<mapsto> [last p]], [str_of ''generated_text'' \<mapsto> [last p]],
          [str_of ''generated_text'' \<mapsto> [last p]]]"
  "snd (question_generator echo_models p 120 3 True st) = Suc st"
  by (simp_all add: echo_models_def numeral_3_eq_3)

lemma two_chunks_nth:
  "length (text_chunks (replicate 1024 (97::nat) @ [98])) = 2"
  "last (prompt (text_chunks (replicate 1024 (97::nat) @ [98]) ! 0)) = 97"
  "last (prompt (text_chunks (replicate 1024 (97::nat) @ [98]) ! 1)) = 98"
  by (simp_all add: two_chunks last_prompt)

lemma nth3: "j < 3 \<Longrightarrow> [a, a, a] ! j = a"
  by (auto simp: less_Suc_eq numeral_3_eq_3)

section \<open>The chunker (C1)\<close>

text \<open>
  Claim C1. For every string \<open>s\<close> and the fixed chunk size 1024, the chunks are the
  slices \<open>s[0:1024], s[1024:2048], \<dots>\<close> and concatenate, in order, to \<open>s\<close> itself; every
  chunk other than the last has exactly 1024 characters; there are
  \<open>\<lceil>len(s) / 1024\<rceil>\<close> chunks; and the empty string has an empty chunk sequence.
\<close>

theorem C1_chunking:
  "concat (text_chunks s) = s
   \<and> (\<forall>j<length (text_chunks s). text_chunks s ! j = take 1024 (drop (j * 1024) s))
   \<and> (\<forall>j. Suc j < length (text_chunks s) \<longrightarrow> length (text_chunks s ! j) = 1024)
   \<and> length (text_chunks s) = (length s + 1023) div 1024
   \<and> text_chunks ([] :: 'a list) = []"
proof -
  have "concat (text_chunks s) = s"
    by (simp add: text_chunks_def concat_slices_from)
  moreover have "\<forall>j<length (text_chunks s). text_chunks s ! j = take 1024 (drop (j * 1024) s)"
    using nth_slices_from [of 1024 _ 0 s] by (simp add: text_chunks_def)
  moreover have "\<forall>j. Suc j < length (text_chunks s) \<longrightarrow> length (text_chunks s ! j) = 1024"
    using length_nth_slices_from [of 1024 _ s] by (simp add: text_chunks_def)
  moreover have "length (text_chunks s) = (length s + 1023) div 1024"
    by (simp add: text_chunks_def length_slices_from)
  moreover have "text_chunks ([] :: 'a list) = []"
    by (simp add: text_chunks_def slices_from_beyond)
  ultimately show ?thesis by blast
qed

theorem C1_chunking_witness:
  "length (text_chunks (replicate 1500 (0::nat))) = 2
   \<and> length (text_chunks (replicate 1500 (0::nat)) ! 0) = 1024
   \<and> text_chunks (replicate 1500 (0::nat)) ! 1 = replicate 476 0"
proof -
  note c = C1_chunking [of "replicate 1500 (0::nat)"]
  from c have "length (text_chunks (replicate 1500 (0::nat)))
                = (length (replicate 1500 (0::nat)) + 1023) div 1024"
    by blast
  then have n: "length (text_chunks (replicate 1500 (0::nat))) = 2"
    by simp
  have "Suc 0 < length (text_chunks (replicate 1500 (0::nat)))"
    using n by simp
  then have "length (text_chunks (replicate 1500 (0::nat)) ! 0) = 1024"
    using c by blast
  moreover have "text_chunks (replicate 1500 (0::nat)) ! 1 = replicate 476 0"
  proof -
    have "1 < length (text_chunks (replicate 1500 (0::nat)))" using n by simp
    then have "text_chunks (replicate 1500 (0::nat)) ! 1
               = take 1024 (drop (1 * 1024) (replicate 1500 (0::nat)))"
      using c by blast
    then show ?thesis by simp
  qed
  ultimately show ?thesis using n by simp
qed

section \<open>The orchestrator end to end (C2)\<close>

text \<open>
  Claim C2. With the stub models (the audio path is transcribed as \<^verbatim>\<open>"hello world"\<close>,
  every chunk is summarised as \<^verbatim>\<open>"SUM"\<close>, every prompt is answered with \<^verbatim>\<open>"Q1"\<close>, \<^verbatim>\<open>"Q2"\<close>,
  \<^verbatim>\<open>"Q3"\<close>) and a file system on which the report file can be opened, \<^verbatim>\<open>process_audio\<close>
  returns, under every schedule, the tuple
  \<^verbatim>\<open>("hello world", "SUM", "Q1\nQ2\nQ3", "lecture_summary.txt")\<close>, and afterwards the file
  at that path holds the three values, each under its header.
\<close>

theorem C2_end_to_end:
  assumes "open_error w (str_of ''lecture_summary.txt'') = None"
  shows "\<exists>w'. process_audio (stub_models audio) sch audio w =
           Some (Inr (str_of ''hello world'', str_of ''SUM'',
                      str_of ''Q1'' @ NL @ str_of ''Q2'' @ NL @ str_of ''Q3'',
                      str_of ''lecture_summary.txt''), w')
       \<and> files w' (str_of ''lecture_summary.txt'') = Some
            ([0xF0, 0x9F, 0x93, 0x9D] @ map of_char '' Transcription:''
             @ map of_nat (linesep (platform w)) @ map of_char ''hello world''
             @ map of_nat (linesep (platform w)) @ map of_nat (linesep (platform w))
             @ [0xF0, 0x9F, 0x93, 0x9C] @ map of_char '' Summary:''
             @ map of_nat (linesep (platform w)) @ map of_char ''SUM''
             @ map of_nat (linesep (platform w)) @ map of_nat (linesep (platform w))
             @ [0xF0, 0x9F, 0xA4, 0x94] @ map of_char '' Practice Questions:''
             @ map of_nat (linesep (platform w)) @ map of_char ''Q1''
             @ map of_nat (linesep (platform w)) @ map of_char ''Q2''
             @ map of_nat (linesep (platform w)) @ map of_char ''Q3'')"
proof -
  let ?p = "platform w"
  have q: "encode_text ?p (str_of ''Q1'' @ NL @ str_of ''Q2'' @ NL @ str_of ''Q3'')
           = Inr (map of_char ''Q1'' @ map of_nat (linesep ?p) @ map of_char ''Q2''
                  @ map of_nat (linesep ?p) @ map of_char ''Q3'')"
    by (simp only: encode_text_append encode_text_ascii encode_text_NL sum.case)
  have enc: "encode_text ?p
           (combined_text (str_of ''hello world'') (str_of ''SUM'')
              (str_of ''Q1'' @ NL @ str_of ''Q2'' @ NL @ str_of ''Q3''))
        = Inr ([0xF0, 0x9F, 0x93, 0x9D] @ map of_char '' Transcription:''
             @ map of_nat (linesep ?p) @ map of_char ''hello world''
             @ map of_nat (linesep ?p) @ map of_nat (linesep ?p)
             @ [0xF0, 0x9F, 0x93, 0x9C] @ map of_char '' Summary:''
             @ map of_nat (linesep ?p) @ map of_char ''SUM''
             @ map of_nat (linesep ?p) @ map of_nat (linesep ?p)
             @ [0xF0, 0x9F, 0xA4, 0x94] @ map of_char '' Practice Questions:''
             @ map of_nat (linesep ?p) @ map of_char ''Q1''
             @ map of_nat (linesep ?p) @ map of_char ''Q2''
             @ map of_nat (linesep ?p) @ map of_char ''Q3'')"
    by (simp only: encode_combined_text encode_text_ascii q sum.case)
  show ?thesis
    by (simp only: stub_run [OF assms enc]) simp
qed

theorem C2_end_to_end_witness:
  "\<exists>w'. process_audio (stub_models (str_of ''lecture.wav''))
            \<lparr>gen_picks = [4], pool_merge = [False]\<rparr> (str_of ''lecture.wav'') empty_world =
           Some (Inr (str_of ''hello world'', str_of ''SUM'',
                      str_of ''Q1'' @ NL @ str_of ''Q2'' @ NL @ str_of ''Q3'',
                      str_of ''lecture_summary.txt''), w')
       \<and> files w' (str_of ''lecture_summary.txt'') = Some
            ([0xF0, 0x9F, 0x93, 0x9D] @ map of_char '' Transcription:\<newline>hello world\<newline>\<newline>''
             @ [0xF0, 0x9F, 0x93, 0x9C] @ map of_char '' Summary:\<newline>SUM\<newline>\<newline>''
             @ [0xF0, 0x9F, 0xA4, 0x94] @ map of_char '' Practice Questions:\<newline>Q1\<newline>Q2\<newline>Q3'')"
proof -
  have "open_error empty_world (str_of ''lecture_summary.txt'') = None"
    by (simp add: empty_world_def)
  from C2_end_to_end [OF this, of "str_of ''lecture.wav''" "\<lparr>gen_picks = [4], pool_merge = [False]\<rparr>"]
  show ?thesis
    by (simp add: empty_world_def)
qed

section \<open>The question adapter (C3)\<close>

text \<open>
  Claim C3. When the generator answers every prompt with three candidates, each with its
  \<^verbatim>\<open>generated_text\<close>, the list of questions has three entries per chunk, and it is the
  concatenation of one group per chunk, in the order in which the chunks were submitted.
  The string returned is these questions separated by single newlines: followed by one
  more newline, it is every question followed by a newline; it is empty when there is no
  question. The calls of the generator are chained through the sampler in the order in
  which the pool completes them: the \<open>k\<close>-th call to complete is the call for chunk
  \<open>order ! k\<close>, on the prompt of that chunk, it starts from the sampler state left by the
  call before it, and the three \<^verbatim>\<open>generated_text\<close> values of its answer are, in order, the
  three questions of the group of that chunk. When moreover the generator's answer does
  not depend on the sampler state, the \<open>i\<close>-th group holds the three values of the answer
  to the prompt of the \<open>i\<close>-th chunk, and every run on the same transcript, under any
  schedule, returns the same string.
\<close>

theorem C3_question_grouping:
  assumes three: "\<forall>chunk st. \<exists>ds.
            fst (question_generator m (prompt chunk) 120 3 True st) = Inr ds
            \<and> length ds = 3 \<and> (\<forall>d\<in>set ds. d (str_of ''generated_text'') \<noteq> None)"
  shows "\<exists>qs groups out s' order sts.
           question_list m picks t s = Some (Inr qs, s', order)
         \<and> generate_questions m picks t s = Some (Inr out, s', order)
         \<and> length qs = length (text_chunks t) * 3
         \<and> qs = concat groups \<and> length groups = length (text_chunks t)
         \<and> (\<forall>i<length (text_chunks t). length (groups ! i) = 3)
         \<and> (qs = [] \<longrightarrow> out = [])
         \<and> (qs \<noteq> [] \<longrightarrow> out @ NL = concat (map (\<lambda>q. q @ NL) qs))
         \<and> distinct order \<and> set order = {..<length (text_chunks t)}
         \<and> length order = length (text_chunks t)
         \<and> length sts = Suc (length (text_chunks t)) \<and> sts ! 0 = s
         \<and> sts ! length (text_chunks t) = s'
         \<and> (\<forall>k<length (text_chunks t). \<exists>ds.
               question_generator m (prompt (text_chunks t ! (order ! k))) 120 3 True (sts ! k)
                 = (Inr ds, sts ! Suc k)
             \<and> (\<forall>j<3. (ds ! j) (str_of ''generated_text'') = Some (groups ! (order ! k) ! j)))
         \<and> (\<forall>answer. (\<forall>p st. fst (question_generator m p 120 3 True st) = answer p) \<longrightarrow>
               (\<forall>i<length (text_chunks t). \<exists>ds.
                   answer (prompt (text_chunks t ! i)) = Inr ds
                 \<and> (\<forall>j<3. (ds ! j) (str_of ''generated_text'') = Some (groups ! i ! j)))
             \<and> (\<forall>picks2 s2. map_option fst (generate_questions m picks2 t s2)
                              = Some (Inr out)))"
proof -
  let ?n = "length (text_chunks t)"
  let ?gt = "str_of ''generated_text''"
  let ?call = "\<lambda>i. question_generator m (prompt (text_chunks t ! i)) 120 3 True"
  obtain futures s' order sts where
    ql: "question_list m picks t s =
       (case await_all futures [0..<?n] [] of None \<Rightarrow> None | Some r \<Rightarrow> Some (r, s', order))"
    and ord: "distinct order" "set order = {..<?n}" "length order = ?n"
    and sts: "length sts = Suc ?n" "sts ! 0 = s" "sts ! ?n = s'"
    and chain: "\<forall>k<?n. futures (order ! k) = Some (fst (?call (order ! k) (sts ! k)))
                     \<and> sts ! Suc k = snd (?call (order ! k) (sts ! k))"
    using question_list_chain [of m picks t s] by blast
  have each: "\<forall>i. \<exists>g. i < ?n \<longrightarrow> length g = 3
      \<and> (\<exists>ds. futures i = Some (Inr ds) \<and> length ds = 3 \<and> collect_field ?gt ds = Inr g)"
  proof
    fix i
    show "\<exists>g. i < ?n \<longrightarrow> length g = 3
      \<and> (\<exists>ds. futures i = Some (Inr ds) \<and> length ds = 3 \<and> collect_field ?gt ds = Inr g)"
    proof (cases "i < ?n")
      case True
      then have "i \<in> set order" using ord(2) by simp
      then obtain k where k: "k < ?n" "order ! k = i"
        using ord(3) by (auto simp: in_set_conv_nth)
      then have f: "futures i = Some (fst (?call i (sts ! k)))"
        using chain by auto
      from three obtain ds where
        ds: "fst (?call i (sts ! k)) = Inr ds" "length ds = 3" "\<forall>d\<in>set ds. d ?gt \<noteq> None"
        by blast
      from collect_field_present [OF ds(3)] obtain g where g: "collect_field ?gt ds = Inr g"
        by blast
      then have "length g = 3" using collect_field_length ds(2) by fastforce
      then show ?thesis using f ds(1,2) g by auto
    next
      case False
      then show ?thesis by simp
    qed
  qed
  then obtain G where G: "\<forall>i. i < ?n \<longrightarrow> length (G i) = 3
      \<and> (\<exists>ds. futures i = Some (Inr ds) \<and> length ds = 3 \<and> collect_field ?gt ds = Inr (G i))"
    using choice [OF each] by blast
  define groups where "groups = map G [0..<?n]"
  define qs where "qs = concat groups"
  define out where "out = py_join NL qs"
  have gi: "\<forall>i<?n. groups ! i = G i" by (simp add: groups_def)
  have "\<forall>i\<in>set [0..<?n]. \<exists>ds. futures i = Some (Inr ds) \<and> collect_field ?gt ds = Inr (G i)"
    using G by auto
  from await_all_outcome [OF this, of "[]"]
  have aw: "await_all futures [0..<?n] [] = Some (Inr qs)"
    by (simp add: qs_def groups_def)
  have q1: "question_list m picks t s = Some (Inr qs, s', order)"
    using ql aw by simp
  then have q2: "generate_questions m picks t s = Some (Inr out, s', order)"
    by (simp add: generate_questions_eq out_def)
  have lg: "length groups = ?n" by (simp add: groups_def)
  have l3: "\<forall>i<?n. length (groups ! i) = 3" using G gi by simp
  have len: "length qs = ?n * 3"
    unfolding qs_def using length_concat_uniform [of groups 3] l3 lg by simp
  have j0: "qs = [] \<longrightarrow> out = []" by (simp add: out_def)
  have j1: "qs \<noteq> [] \<longrightarrow> out @ NL = concat (map (\<lambda>q. q @ NL) qs)"
    by (simp add: out_def py_join_terminated)
  have ch: "\<forall>k<?n. \<exists>ds. ?call (order ! k) (sts ! k) = (Inr ds, sts ! Suc k)
             \<and> (\<forall>j<3. (ds ! j) ?gt = Some (groups ! (order ! k) ! j))"
  proof (intro allI impI)
    fix k assume k: "k < ?n"
    then have "order ! k \<in> set order" using ord(3) by simp
    then have i: "order ! k < ?n" using ord(2) by simp
    from G i obtain ds where ds: "futures (order ! k) = Some (Inr ds)" "length ds = 3"
      "collect_field ?gt ds = Inr (G (order ! k))"
      by blast
    have "fst (?call (order ! k) (sts ! k)) = Inr ds" using chain k ds(1) by simp
    moreover have "snd (?call (order ! k) (sts ! k)) = sts ! Suc k" using chain k by simp
    ultimately have c: "?call (order ! k) (sts ! k) = (Inr ds, sts ! Suc k)"
      by (simp add: prod_eq_iff)
    have "\<forall>j<3. (ds ! j) ?gt = Some (G (order ! k) ! j)"
      using collect_field_all [OF ds(3)] ds(2) by simp
    then have "\<forall>j<3. (ds ! j) ?gt = Some (groups ! (order ! k) ! j)"
      using gi i by simp
    then show "\<exists>ds. ?call (order ! k) (sts ! k) = (Inr ds, sts ! Suc k)
             \<and> (\<forall>j<3. (ds ! j) ?gt = Some (groups ! (order ! k) ! j))"
      using c by blast
  qed
  have det: "\<forall>answer. (\<forall>p st. fst (question_generator m p 120 3 True st) = answer p) \<longrightarrow>
               (\<forall>i<?n. \<exists>ds. answer (prompt (text_chunks t ! i)) = Inr ds
                 \<and> (\<forall>j<3. (ds ! j) ?gt = Some (groups ! i ! j)))
             \<and> (\<forall>picks2 s2. map_option fst (generate_questions m picks2 t s2)
                              = Some (Inr out))"
  proof (intro allI impI conjI)
    fix answer i
    assume a: "\<forall>p st. fst (question_generator m p 120 3 True st) = answer p" and i: "i < ?n"
    from i have "i \<in> set order" using ord(2) by simp
    then obtain k where k: "k < ?n" "order ! k = i"
      using ord(3) by (auto simp: in_set_conv_nth)
    from G i obtain ds where ds: "futures i = Some (Inr ds)" "length ds = 3"
      "collect_field ?gt ds = Inr (G i)"
      by blast
    have "futures i = Some (answer (prompt (text_chunks t ! i)))"
      using chain k a by auto
    then have "answer (prompt (text_chunks t ! i)) = Inr ds" using ds(1) by simp
    moreover have "\<forall>j<3. (ds ! j) ?gt = Some (groups ! i ! j)"
      using collect_field_all [OF ds(3)] ds(2) gi i by simp
    ultimately show "\<exists>ds. answer (prompt (text_chunks t ! i)) = Inr ds
                 \<and> (\<forall>j<3. (ds ! j) ?gt = Some (groups ! i ! j))"
      by blast
  next
    fix answer picks2 s2
    assume a: "\<forall>p st. fst (question_generator m p 120 3 True st) = answer p"
    then have d: "\<forall>p s1 s2. fst (question_generator m p 120 3 True s1)
                        = fst (question_generator m p 120 3 True s2)"
      by simp
    have "map_option fst (question_list m picks2 t s2) = map_option fst (question_list m picks t s)"
      using d by (rule question_list_deterministic)
    then have "map_option fst (question_list m picks2 t s2) = Some (Inr qs)"
      using q1 by simp
    then show "map_option fst (generate_questions m picks2 t s2) = Some (Inr out)"
      by (auto simp: generate_questions_eq out_def)
  qed
  show ?thesis
    by (rule exI [where x = qs], rule exI [where x = groups], rule exI [where x = out],
        rule exI [where x = s'], rule exI [where x = order], rule exI [where x = sts],
        intro conjI)
       (rule q1 q2 len lg l3 j0 j1 ord sts ch det qs_def)+
qed

theorem C3_question_grouping_witness:
  "(\<exists>order. generate_questions echo_models [1] (replicate 1024 97 @ [98]) 0
              = Some (Inr [97, 10, 97, 10, 97, 10, 98, 10, 98, 10, 98], 2, order))
   \<and> map_option fst (generate_questions echo_models [] (replicate 1024 97 @ [98]) 7)
       = Some (Inr [97, 10, 97, 10, 97, 10, 98, 10, 98, 10, 98])"
proof -
  define t where "t = replicate 1024 (97::nat) @ [98]"
  define chunks where "chunks = text_chunks t"
  let ?gt = "str_of ''generated_text''"
  define answer :: "pystr \<Rightarrow> pyexn + pydict list" where
    "answer = (\<lambda>p. Inr [[?gt \<mapsto> [last p]], [?gt \<mapsto> [last p]], [?gt \<mapsto> [last p]]])"
  have n: "length chunks = 2" and c0: "last (prompt (chunks ! 0)) = 97"
    and c1: "last (prompt (chunks ! 1)) = 98"
    unfolding chunks_def t_def by (rule two_chunks_nth)+
  have three: "\<forall>chunk st. \<exists>ds.
            fst (question_generator echo_models (prompt chunk) 120 3 True st) = Inr ds
            \<and> length ds = 3 \<and> (\<forall>d\<in>set ds. d ?gt \<noteq> None)"
    by (simp add: echo_answer)
  have det: "\<forall>p st. fst (question_generator echo_models p 120 3 True st) = answer p"
    by (simp add: echo_answer answer_def)
  from C3_question_grouping [OF three, of "[1]" t 0]
  obtain qs groups out s' order sts where
    run: "generate_questions echo_models [1] t 0 = Some (Inr out, s', order)"
    and qs: "qs = concat groups" and lg: "length groups = length (text_chunks t)"
    and l3: "\<forall>i<length (text_chunks t). length (groups ! i) = 3"
    and j1: "qs \<noteq> [] \<longrightarrow> out @ NL = concat (map (\<lambda>q. q @ NL) qs)"
    and st0: "sts ! 0 = 0" and stn: "sts ! length (text_chunks t) = s'"
    and chain: "\<forall>k<length (text_chunks t). \<exists>ds.
               question_generator echo_models (prompt (text_chunks t ! (order ! k))) 120 3 True
                  (sts ! k) = (Inr ds, sts ! Suc k)
             \<and> (\<forall>j<3. (ds ! j) ?gt = Some (groups ! (order ! k) ! j))"
    and dt: "\<forall>answer. (\<forall>p st. fst (question_generator echo_models p 120 3 True st) = answer p)
             \<longrightarrow>
               (\<forall>i<length (text_chunks t). \<exists>ds.
                   answer (prompt (text_chunks t ! i)) = Inr ds
                 \<and> (\<forall>j<3. (ds ! j) ?gt = Some (groups ! i ! j)))
             \<and> (\<forall>picks2 s2. map_option fst (generate_questions echo_models picks2 t s2)
                              = Some (Inr out))"
    by (elim exE conjE) (rule that, assumption+)
  note lg = lg [folded chunks_def] and l3 = l3 [folded chunks_def]
    and stn = stn [folded chunks_def] and chain = chain [folded chunks_def]
    and dt = dt [folded chunks_def]
  note both = dt [THEN spec, THEN mp, OF det]
  note vals = both [THEN conjunct1]
  note again = both [THEN conjunct2]
  have grp: "groups ! i = [[c], [c], [c]]"
    if i: "i < length chunks" and c: "last (prompt (chunks ! i)) = c" for i c
  proof -
    from vals i obtain ds where a: "answer (prompt (chunks ! i)) = Inr ds"
      and v: "\<forall>j<3. (ds ! j) ?gt = Some (groups ! i ! j)"
      by blast
    from a c have "ds = [[?gt \<mapsto> [c]], [?gt \<mapsto> [c]], [?gt \<mapsto> [c]]]"
      by (simp add: answer_def)
    then have "\<forall>j<3. ds ! j = [?gt \<mapsto> [c]]"
      by (simp add: nth3)
    then have "\<forall>j<3. groups ! i ! j = [c]"
      using v by fastforce
    moreover have "length (groups ! i) = 3" using l3 i by simp
    ultimately show ?thesis by (rule list3 [rotated])
  qed
  have g0: "groups ! 0 = [[97], [97], [97]]" using grp [of 0 97] n c0 by simp
  have g1: "groups ! 1 = [[98], [98], [98]]" using grp [of 1 98] n c1 by simp
  have "length groups = 2" using lg n by simp
  then have "groups = [groups ! 0, groups ! 1]"
    by (rule list2)
  then have "groups = [[[97], [97], [97]], [[98], [98], [98]]]"
    by (simp only: g0 g1)
  then have "qs = [[97], [97], [97], [98], [98], [98]]"
    using qs by simp
  then have "out @ [10] = [97, 10, 97, 10, 97, 10, 98, 10, 98, 10, 98] @ [10]"
    using j1 by simp
  then have out: "out = [97, 10, 97, 10, 97, 10, 98, 10, 98, 10, 98]"
    by (simp only: append_same_eq)
  have next_state: "sts ! Suc k = Suc (sts ! k)" if "k < length chunks" for k
  proof -
    from chain that obtain ds where
      "question_generator echo_models (prompt (chunks ! (order ! k))) 120 3 True (sts ! k)
         = (Inr ds, sts ! Suc k)"
      by blast
    then have "snd (question_generator echo_models (prompt (chunks ! (order ! k))) 120 3 True
                 (sts ! k)) = sts ! Suc k"
      by simp
    then show ?thesis by (simp add: echo_answer(2))
  qed
  have "sts ! Suc 0 = Suc 0" using next_state [of 0] n st0 by simp
  moreover have "sts ! Suc (Suc 0) = Suc (sts ! Suc 0)" using next_state [of "Suc 0"] n by simp
  ultimately have "s' = 2" using stn n by (simp add: numeral_2_eq_2)
  then show ?thesis using run out again unfolding t_def by simp
qed

section \<open>The summarization adapter (C4)\<close>

text \<open>
  Claim C4. For a transcript of one chunk (not empty, at most 1024 characters) for which
  the summarizer returns one summary, \<^verbatim>\<open>summarize_text\<close> returns that summary string. For
  a transcript of more than 1024 characters for which the summarizer returns one summary
  per chunk, it returns the summary strings joined in the order of the chunks, with a
  single space between neighbours: the result is longer than the summaries together by
  exactly the number of chunks minus one.
\<close>

theorem C4_summary_join:
  "(t \<noteq> [] \<and> length t \<le> 1024 \<and> summarizer m [t] 200 50 False = Inr [d]
      \<and> d (str_of ''summary_text'') = Some sm
     \<longrightarrow> summarize_text m t = Inr sm)
   \<and> (1024 < length t \<and> summarizer m (text_chunks t) 200 50 False = Inr ds
      \<and> length ds = length (text_chunks t)
      \<and> collect_field (str_of ''summary_text'') ds = Inr ss
     \<longrightarrow> summarize_text m t = Inr (py_join (str_of '' '') ss)
       \<and> length ss = length (text_chunks t) \<and> 2 \<le> length (text_chunks t)
       \<and> (\<forall>i<length ss. (ds ! i) (str_of ''summary_text'') = Some (ss ! i))
       \<and> length (py_join (str_of '' '') ss)
           = sum_list (map length ss) + (length (text_chunks t) - 1))"
proof (intro conjI impI)
  assume "t \<noteq> [] \<and> length t \<le> 1024 \<and> summarizer m [t] 200 50 False = Inr [d]
      \<and> d (str_of ''summary_text'') = Some sm"
  then show "summarize_text m t = Inr sm"
    by (simp add: summarize_text_def text_chunks_single getitem_def)
next
  assume a: "1024 < length t \<and> summarizer m (text_chunks t) 200 50 False = Inr ds
      \<and> length ds = length (text_chunks t)
      \<and> collect_field (str_of ''summary_text'') ds = Inr ss"
  then have n: "length ss = length (text_chunks t)"
    using collect_field_length by fastforce
  show "summarize_text m t = Inr (py_join (str_of '' '') ss)"
    using a by (simp add: summarize_text_def)
  show "length ss = length (text_chunks t)" by (rule n)
  show "2 \<le> length (text_chunks t)" using a by (simp add: text_chunks_multi)
  show "\<forall>i<length ss. (ds ! i) (str_of ''summary_text'') = Some (ss ! i)"
    using a n collect_field_nth by fastforce
  show "length (py_join (str_of '' '') ss)
           = sum_list (map length ss) + (length (text_chunks t) - 1)"
    by (simp add: length_py_join n str_of_def)
qed

theorem C4_summary_join_witness:
  "summarize_text echo_models (str_of ''abc'') = Inr (str_of ''a'')
   \<and> summarize_text echo_models (replicate 1024 97 @ [98]) = Inr (str_of ''a b'')"
proof -
  have "summarize_text echo_models (str_of ''abc'') = Inr (str_of ''a'')"
    using C4_summary_join [of "str_of ''abc''" echo_models
        "[str_of ''summary_text'' \<mapsto> str_of ''a'']" "str_of ''a''"]
    by (simp add: echo_models_def str_of_def)
  moreover have "summarize_text echo_models (replicate 1024 97 @ [98]) = Inr (str_of ''a b'')"
    using C4_summary_join [of "replicate 1024 97 @ [98]" echo_models _ _
        "[[str_of ''summary_text'' \<mapsto> [97]], [str_of ''summary_text'' \<mapsto> [98]]]"
        "[[97], [98]]"] echo_summaries
    by (simp add: echo_models_def two_chunks) (simp add: str_of_def)
  ultimately show ?thesis by simp
qed

section \<open>The report file (C5)\<close>

text \<open>
  Claim C5. Every call of \<^verbatim>\<open>process_audio\<close> that returns has written the file
  \<^verbatim>\<open>lecture_summary.txt\<close> and returns that path as its fourth result. The file holds, as
  UTF-8 and whatever it held before, three sections in the order transcript, summary,
  questions: each is the emoji header line followed by the value, and a blank line
  separates a section from the next. No other file is touched.
\<close>

theorem C5_report_file:
  assumes "process_audio m sch audio w
             = Some (Inr (transcript, summary, questions, file_path), w')"
  shows "file_path = str_of ''lecture_summary.txt''
    \<and> (\<exists>bt bs bq.
          encode_text (platform w) transcript = Inr bt
        \<and> encode_text (platform w) summary = Inr bs
        \<and> encode_text (platform w) questions = Inr bq
        \<and> files w' file_path = Some
             ([0xF0, 0x9F, 0x93, 0x9D] @ map of_char '' Transcription:''
              @ map of_nat (linesep (platform w)) @ bt
              @ map of_nat (linesep (platform w)) @ map of_nat (linesep (platform w))
              @ [0xF0, 0x9F, 0x93, 0x9C] @ map of_char '' Summary:''
              @ map of_nat (linesep (platform w)) @ bs
              @ map of_nat (linesep (platform w)) @ map of_nat (linesep (platform w))
              @ [0xF0, 0x9F, 0xA4, 0x94] @ map of_char '' Practice Questions:''
              @ map of_nat (linesep (platform w)) @ bq))
    \<and> (\<forall>p. p \<noteq> file_path \<longrightarrow> files w' p = files w p)"
proof -
  from process_audio_Inr [OF assms] obtain s' order bytes where
    fp: "file_path = str_of ''lecture_summary.txt''"
    and enc: "encode_text (platform w) (combined_text transcript summary questions) = Inr bytes"
    and w': "w' = w\<lparr>sampler := s',
                   calls := calls w @ [Whisper audio]
                     @ merge_by (pool_merge sch) [Summarizer (text_chunks transcript)]
                         (map Generator order),
                   files := (files w)(file_path \<mapsto> bytes)\<rparr>"
    by blast
  from enc obtain bt bs bq where
    parts: "encode_text (platform w) transcript = Inr bt"
      "encode_text (platform w) summary = Inr bs"
      "encode_text (platform w) questions = Inr bq"
    and bytes: "bytes =
             [0xF0, 0x9F, 0x93, 0x9D] @ map of_char '' Transcription:''
              @ map of_nat (linesep (platform w)) @ bt
              @ map of_nat (linesep (platform w)) @ map of_nat (linesep (platform w))
              @ [0xF0, 0x9F, 0x93, 0x9C] @ map of_char '' Summary:''
              @ map of_nat (linesep (platform w)) @ bs
              @ map of_nat (linesep (platform w)) @ map of_nat (linesep (platform w))
              @ [0xF0, 0x9F, 0xA4, 0x94] @ map of_char '' Practice Questions:''
              @ map of_nat (linesep (platform w)) @ bq"
    by (cases "encode_text (platform w) transcript"; cases "encode_text (platform w) summary";
        cases "encode_text (platform w) questions"; simp add: encode_combined_text)
  have "files w' file_path = Some bytes" and "\<forall>p. p \<noteq> file_path \<longrightarrow> files w' p = files w p"
    by (simp_all add: w')
  then show ?thesis using fp parts bytes by blast
qed

theorem C5_report_file_witness:
  "\<exists>w'. process_audio (stub_models (str_of ''lecture.wav''))
            \<lparr>gen_picks = [], pool_merge = []\<rparr> (str_of ''lecture.wav'') empty_world
          = Some (Inr (str_of ''hello world'', str_of ''SUM'',
                       str_of ''Q1'' @ NL @ str_of ''Q2'' @ NL @ str_of ''Q3'',
                       str_of ''lecture_summary.txt''), w')
        \<and> files w' (str_of ''lecture_summary.txt'') \<noteq> None
        \<and> files w' (str_of ''lecture.wav'') = None"
proof -
  have o: "open_error empty_world (str_of ''lecture_summary.txt'') = None"
    by (simp add: empty_world_def)
  obtain bytes where enc: "encode_text (platform empty_world)
           (combined_text (str_of ''hello world'') (str_of ''SUM'')
              (str_of ''Q1'' @ NL @ str_of ''Q2'' @ NL @ str_of ''Q3'')) = Inr bytes"
    by (simp only: encode_combined_text encode_text_append encode_text_ascii encode_text_NL
        sum.case)
  note run = stub_run [OF o enc, of "str_of ''lecture.wav''" "\<lparr>gen_picks = [], pool_merge = []\<rparr>"]
  have ne: "str_of ''lecture.wav'' \<noteq> str_of ''lecture_summary.txt''"
    by (simp add: str_of_def)
  from C5_report_file [OF run] ne
  have "files (empty_world\<lparr>sampler := Suc (sampler empty_world),
              calls := calls empty_world @ [Whisper (str_of ''lecture.wav'')]
                @ merge_by (pool_merge \<lparr>gen_picks = [], pool_merge = []\<rparr>)
                    [Summarizer (text_chunks (str_of ''hello world''))] (map Generator [0]),
              files := (files empty_world)(str_of ''lecture_summary.txt'' \<mapsto> bytes)\<rparr>)
          (str_of ''lecture.wav'') = files empty_world (str_of ''lecture.wav'')"
    by blast
  then show ?thesis using run by (simp add: empty_world_def)
qed

section \<open>Two calls in a row (C6)\<close>

text \<open>
  Claim C6. With models whose answers are determined by their inputs (the question
  generator's answer does not depend on the sampler state), two calls of
  \<^verbatim>\<open>process_audio\<close> in a row on the same audio path, under any two schedules, return the
  same value, and the files after the second call are, byte for byte, the files after
  the first.
\<close>

theorem C6_idempotent:
  assumes det: "\<forall>p s1 s2. fst (question_generator m p 120 3 True s1)
                          = fst (question_generator m p 120 3 True s2)"
  shows "\<exists>r w1 w2. process_audio m sch1 audio w = Some (r, w1)
                 \<and> process_audio m sch2 audio w1 = Some (r, w2)
                 \<and> files w2 = files w1"
proof -
  obtain r1 w1 where run1: "process_audio m sch1 audio w = Some (r1, w1)"
    using process_audio_total [of m sch1 audio w] by blast
  obtain r2 w2 where run2: "process_audio m sch2 audio w1 = Some (r2, w2)"
    using process_audio_total [of m sch2 audio w1] by blast
  note o1 = process_audio_outcome [OF run1]
  note o2 = process_audio_outcome [OF run2]
  have env: "open_error w1 = open_error w" "platform w1 = platform w"
    using o1 by simp_all
  have "r2 = r1 \<and> files w2 = files w1"
  proof (cases "transcribe_audio m audio")
    case (Inl e)
    then show ?thesis using o1 o2 by simp
  next
    case (Inr t)
    from o1 Inr obtain qr1 a1 ord1 where
      g1: "generate_questions m (gen_picks sch1) t (sampler w) = Some (qr1, a1, ord1)"
      and c1: "case summarize_text m t of
                  Inl e \<Rightarrow> r1 = Inl e \<and> files w1 = files w
                | Inr sm \<Rightarrow>
                    (case qr1 of
                       Inl e \<Rightarrow> r1 = Inl e \<and> files w1 = files w
                     | Inr q \<Rightarrow>
                         (case open_error w (str_of ''lecture_summary.txt'') of
                            Some e \<Rightarrow> r1 = Inl e \<and> files w1 = files w
                          | None \<Rightarrow>
                              (case encode_text (platform w) (combined_text t sm q) of
                                 Inl e \<Rightarrow> r1 = Inl e
                                   \<and> files w1 = (files w)(str_of ''lecture_summary.txt'' \<mapsto> [])
                               | Inr bytes \<Rightarrow>
                                   r1 = Inr (t, sm, q, str_of ''lecture_summary.txt'')
                                   \<and> files w1 = (files w)(str_of ''lecture_summary.txt'' \<mapsto> bytes))))"
      by auto
    from o2 Inr obtain qr2 a2 ord2 where
      g2: "generate_questions m (gen_picks sch2) t (sampler w1) = Some (qr2, a2, ord2)"
      and c2: "case summarize_text m t of
                  Inl e \<Rightarrow> r2 = Inl e \<and> files w2 = files w1
                | Inr sm \<Rightarrow>
                    (case qr2 of
                       Inl e \<Rightarrow> r2 = Inl e \<and> files w2 = files w1
                     | Inr q \<Rightarrow>
                         (case open_error w1 (str_of ''lecture_summary.txt'') of
                            Some e \<Rightarrow> r2 = Inl e \<and> files w2 = files w1
                          | None \<Rightarrow>
                              (case encode_text (platform w1) (combined_text t sm q) of
                                 Inl e \<Rightarrow> r2 = Inl e
                                   \<and> files w2 = (files w1)(str_of ''lecture_summary.txt'' \<mapsto> [])
                               | Inr bytes \<Rightarrow>
                                   r2 = Inr (t, sm, q, str_of ''lecture_summary.txt'')
                                   \<and> files w2 = (files w1)(str_of ''lecture_summary.txt'' \<mapsto> bytes))))"
      by auto
    have same: "qr2 = qr1"
      using generate_questions_deterministic [OF det g2 g1] .
    show ?thesis
      using c1 c2 unfolding same env
      by (auto split: sum.splits option.splits)
  qed
  then show ?thesis using run1 run2 by blast
qed

theorem C6_idempotent_witness:
  "\<exists>w1 w2. process_audio (stub_models (str_of ''lecture.wav''))
                 \<lparr>gen_picks = [], pool_merge = [True]\<rparr> (str_of ''lecture.wav'') empty_world
               = Some (Inr (str_of ''hello world'', str_of ''SUM'',
                            str_of ''Q1'' @ NL @ str_of ''Q2'' @ NL @ str_of ''Q3'',
                            str_of ''lecture_summary.txt''), w1)
            \<and> process_audio (stub_models (str_of ''lecture.wav''))
                 \<lparr>gen_picks = [3], pool_merge = [False]\<rparr> (str_of ''lecture.wav'') w1
               = Some (Inr (str_of ''hello world'', str_of ''SUM'',
                            str_of ''Q1'' @ NL @ str_of ''Q2'' @ NL @ str_of ''Q3'',
                            str_of ''lecture_summary.txt''), w2)
            \<and> files w2 = files w1"
proof -
  have det: "\<forall>p s1 s2.
      fst (question_generator (stub_models (str_of ''lecture.wav'')) p 120 3 True s1)
      = fst (question_generator (stub_models (str_of ''lecture.wav'')) p 120 3 True s2)"
    by (simp add: stub_models_def)
  have o: "open_error empty_world (str_of ''lecture_summary.txt'') = None"
    by (simp add: empty_world_def)
  obtain bytes where enc: "encode_text (platform empty_world)
           (combined_text (str_of ''hello world'') (str_of ''SUM'')
              (str_of ''Q1'' @ NL @ str_of ''Q2'' @ NL @ str_of ''Q3'')) = Inr bytes"
    by (simp only: encode_combined_text encode_text_append encode_text_ascii encode_text_NL
        sum.case)
  note run = stub_run [OF o enc, of "str_of ''lecture.wav''"
      "\<lparr>gen_picks = [], pool_merge = [True]\<rparr>"]
  from C6_idempotent [OF det, of "\<lparr>gen_picks = [], pool_merge = [True]\<rparr>"
      "str_of ''lecture.wav''" empty_world "\<lparr>gen_picks = [3], pool_merge = [False]\<rparr>"]
  show ?thesis
    unfolding run by blast
qed

section \<open>Exceptions (C7)\<close>




section \<open>Sequencing (C8)\<close>

text \<open>
  Claim C8. In every call of \<^verbatim>\<open>process_audio\<close>: summarization and question generation
  start from the finished transcript. When the transcription raises, neither the
  summarizer nor the question generator is called: whatever the two models are, the
  call ends in the same way, with the sampler untouched. When it returns a transcript,
  the two models are asked about the chunks of that transcript and nothing else: two
  models that answer those chunks alike give the same call, whatever they do elsewhere.
  The summary is awaited before the questions: an exception of \<^verbatim>\<open>summarize_text\<close> is the
  one that surfaces, although the question task has run to its end. And when the
  4-tuple is returned the report file has been written. The log of model calls shows
  the same order: the transcription model first, then the summarizer once and the
  generator once per chunk.
\<close>

theorem C8_sequencing:
  "\<exists>r w' rest. process_audio m sch audio w = Some (r, w')
     \<and> (\<forall>e. transcribe_audio m audio = Inl e \<longrightarrow>
            r = Inl e \<and> sampler w' = sampler w
          \<and> (\<forall>sm qg. process_audio (m\<lparr>summarizer := sm, question_generator := qg\<rparr>)
                         sch audio w = Some (r, w')))
     \<and> (\<forall>t. transcribe_audio m audio = Inr t \<longrightarrow>
            (\<forall>sm qg. sm (text_chunks t) 200 50 False = summarizer m (text_chunks t) 200 50 False
                   \<and> (\<forall>c\<in>set (text_chunks t).
                         qg (prompt c) 120 3 True = question_generator m (prompt c) 120 3 True)
                 \<longrightarrow> process_audio (m\<lparr>summarizer := sm, question_generator := qg\<rparr>)
                         sch audio w = Some (r, w'))
          \<and> (\<exists>qr s' order. generate_questions m (gen_picks sch) t (sampler w)
                               = Some (qr, s', order)
                           \<and> sampler w' = s'))
     \<and> (\<forall>t e. transcribe_audio m audio = Inr t \<and> summarize_text m t = Inl e \<longrightarrow> r = Inl e)
     \<and> (\<forall>t sm q fp. r = Inr (t, sm, q, fp) \<longrightarrow>
            (\<exists>bytes. encode_text (platform w) (combined_text t sm q) = Inr bytes
                   \<and> files w' fp = Some bytes))
     \<and> calls w' = calls w @ Whisper audio # rest
     \<and> (\<forall>c\<in>set rest. \<exists>t. transcribe_audio m audio = Inr t
            \<and> (c = Summarizer (text_chunks t) \<or> (\<exists>i<length (text_chunks t). c = Generator i)))
     \<and> (\<forall>t. transcribe_audio m audio = Inr t \<longrightarrow>
            Summarizer (text_chunks t) \<in> set rest
          \<and> (\<forall>i<length (text_chunks t). Generator i \<in> set rest))"
proof -
  obtain r w' where run: "process_audio m sch audio w = Some (r, w')"
    using process_audio_total [of m sch audio w] by blast
  note c = process_audio_calls [OF run]
  note o = process_audio_outcome [OF run]
  have failed: "\<forall>e. transcribe_audio m audio = Inl e \<longrightarrow>
            r = Inl e \<and> sampler w' = sampler w
          \<and> (\<forall>sm qg. process_audio (m\<lparr>summarizer := sm, question_generator := qg\<rparr>)
                         sch audio w = Some (r, w'))"
  proof (intro allI impI conjI)
    fix e assume e: "transcribe_audio m audio = Inl e"
    show "r = Inl e" using o e by simp
    show "sampler w' = sampler w"
      using run e by (auto simp: process_audio_transcribe_error)
  next
    fix e sm qg assume e: "transcribe_audio m audio = Inl e"
    have "process_audio (m\<lparr>summarizer := sm, question_generator := qg\<rparr>) sch audio w
          = process_audio m sch audio w"
      using e by (intro process_audio_cong) simp_all
    then show "process_audio (m\<lparr>summarizer := sm, question_generator := qg\<rparr>) sch audio w
               = Some (r, w')"
      using run by simp
  qed
  have asked: "\<forall>t. transcribe_audio m audio = Inr t \<longrightarrow>
            (\<forall>sm qg. sm (text_chunks t) 200 50 False = summarizer m (text_chunks t) 200 50 False
                   \<and> (\<forall>c\<in>set (text_chunks t).
                         qg (prompt c) 120 3 True = question_generator m (prompt c) 120 3 True)
                 \<longrightarrow> process_audio (m\<lparr>summarizer := sm, question_generator := qg\<rparr>)
                         sch audio w = Some (r, w'))
          \<and> (\<exists>qr s' order. generate_questions m (gen_picks sch) t (sampler w)
                               = Some (qr, s', order)
                           \<and> sampler w' = s')"
  proof (intro allI impI conjI)
    fix t sm qg
    assume t: "transcribe_audio m audio = Inr t"
      and a: "sm (text_chunks t) (200::nat) (50::nat) False
                = summarizer m (text_chunks t) 200 50 False
                   \<and> (\<forall>c\<in>set (text_chunks t).
                         qg (prompt c) (120::nat) (3::nat) True
                         = question_generator m (prompt c) 120 3 True)"
    have "process_audio (m\<lparr>summarizer := sm, question_generator := qg\<rparr>) sch audio w
          = process_audio m sch audio w"
      using t a by (intro process_audio_cong) simp_all
    then show "process_audio (m\<lparr>summarizer := sm, question_generator := qg\<rparr>) sch audio w
               = Some (r, w')"
      using run by simp
  next
    fix t assume t: "transcribe_audio m audio = Inr t"
    show "\<exists>qr s' order. generate_questions m (gen_picks sch) t (sampler w)
                               = Some (qr, s', order)
                           \<and> sampler w' = s'"
      using o t by auto
  qed
  have await: "\<forall>t e. transcribe_audio m audio = Inr t \<and> summarize_text m t = Inl e \<longrightarrow> r = Inl e"
    using o by auto
  have written: "\<forall>t sm q fp. r = Inr (t, sm, q, fp) \<longrightarrow>
            (\<exists>bytes. encode_text (platform w) (combined_text t sm q) = Inr bytes
                   \<and> files w' fp = Some bytes)"
  proof (intro allI impI)
    fix t sm q fp assume "r = Inr (t, sm, q, fp)"
    then have "process_audio m sch audio w = Some (Inr (t, sm, q, fp), w')"
      using run by simp
    from process_audio_Inr [OF this]
    show "\<exists>bytes. encode_text (platform w) (combined_text t sm q) = Inr bytes
                   \<and> files w' fp = Some bytes"
      by auto
  qed
  have "\<exists>rest. calls w' = calls w @ Whisper audio # rest
     \<and> (\<forall>c\<in>set rest. \<exists>t. transcribe_audio m audio = Inr t
            \<and> (c = Summarizer (text_chunks t) \<or> (\<exists>i<length (text_chunks t). c = Generator i)))
     \<and> (\<forall>t. transcribe_audio m audio = Inr t \<longrightarrow>
            Summarizer (text_chunks t) \<in> set rest
          \<and> (\<forall>i<length (text_chunks t). Generator i \<in> set rest))"
  proof (cases "transcribe_audio m audio")
    case (Inl e)
    then have "calls w' = calls w @ Whisper audio # []" using c by simp
    then show ?thesis using Inl by fastforce
  next
    case (Inr t)
    then obtain qr s' order where
      gq: "generate_questions m (gen_picks sch) t (sampler w) = Some (qr, s', order)"
      and cw: "calls w' = calls w @ [Whisper audio]
                    @ merge_by (pool_merge sch) [Summarizer (text_chunks t)]
                        (map Generator order)"
      using c by auto
    define rest where
      "rest = merge_by (pool_merge sch) [Summarizer (text_chunks t)] (map Generator order)"
    have st: "set rest = insert (Summarizer (text_chunks t)) (Generator ` {..<length (text_chunks t)})"
      using generate_questions_order [OF gq] by (simp add: rest_def set_merge_by)
    have 1: "calls w' = calls w @ Whisper audio # rest"
      using cw by (simp add: rest_def)
    have 2: "\<forall>c\<in>set rest. \<exists>t. transcribe_audio m audio = Inr t
            \<and> (c = Summarizer (text_chunks t) \<or> (\<exists>i<length (text_chunks t). c = Generator i))"
      using Inr st by auto
    have 3: "\<forall>t. transcribe_audio m audio = Inr t \<longrightarrow>
            Summarizer (text_chunks t) \<in> set rest
          \<and> (\<forall>i<length (text_chunks t). Generator i \<in> set rest)"
      using Inr st by auto
    show ?thesis using 1 2 3 by blast
  qed
  then obtain rest where l1: "calls w' = calls w @ Whisper audio # rest"
    and l2: "\<forall>c\<in>set rest. \<exists>t. transcribe_audio m audio = Inr t
            \<and> (c = Summarizer (text_chunks t) \<or> (\<exists>i<length (text_chunks t). c = Generator i))"
    and l3: "\<forall>t. transcribe_audio m audio = Inr t \<longrightarrow>
            Summarizer (text_chunks t) \<in> set rest
          \<and> (\<forall>i<length (text_chunks t). Generator i \<in> set rest)"
    by blast
  show ?thesis
    by (rule exI [where x = r], rule exI [where x = w'], rule exI [where x = rest], intro conjI)
       (rule run failed asked await written l1 l2 l3)+
qed

theorem C8_sequencing_witness:
  "(\<exists>w'. process_audio
             ((stub_models (str_of ''lecture.wav''))
                \<lparr>summarizer := \<lambda>chunks a b d. Inl (LibraryError ''summarizer called''),
                 question_generator := \<lambda>p a n d s. (Inl (LibraryError ''generator called''), Suc s)\<rparr>)
             \<lparr>gen_picks = [], pool_merge = [True]\<rparr> (str_of ''missing.wav'') empty_world
           = Some (Inl (LibraryError ''cannot read audio''), w')
         \<and> sampler w' = 0 \<and> calls w' = [Whisper (str_of ''missing.wav'')])
   \<and> (\<exists>w' rest. process_audio
             ((stub_models (str_of ''lecture.wav''))
                \<lparr>summarizer := \<lambda>chunks a b d.
                    if chunks = [str_of ''hello world'']
                    then Inr [[str_of ''summary_text'' \<mapsto> str_of ''SUM'']]
                    else Inl (LibraryError ''other text''),
                 question_generator := \<lambda>p a n d s.
                    if p = prompt (str_of ''hello world'')
                    then (Inr [[str_of ''generated_text'' \<mapsto> str_of ''Q1''],
                               [str_of ''generated_text'' \<mapsto> str_of ''Q2''],
                               [str_of ''generated_text'' \<mapsto> str_of ''Q3'']], Suc s)
                    else (Inl (LibraryError ''other text''), s)\<rparr>)
             \<lparr>gen_picks = [], pool_merge = [True]\<rparr> (str_of ''lecture.wav'') empty_world
           = Some (Inr (str_of ''hello world'', str_of ''SUM'',
                        str_of ''Q1'' @ NL @ str_of ''Q2'' @ NL @ str_of ''Q3'',
                        str_of ''lecture_summary.txt''), w')
         \<and> sampler w' = 1
         \<and> calls w' = Whisper (str_of ''lecture.wav'') # rest
         \<and> files w' (str_of ''lecture_summary.txt'') \<noteq> None)
   \<and> (\<exists>w'. process_audio
             (failing_models (LibraryError ''summarizer failed'') (LibraryError ''generator failed''))
             \<lparr>gen_picks = [], pool_merge = [False]\<rparr> (str_of ''a'') empty_world
           = Some (Inl (LibraryError ''summarizer failed''), w')
         \<and> sampler w' = 1
         \<and> calls w' = [Whisper (str_of ''a''), Generator 0, Summarizer [str_of ''a'']])"
proof -
  let ?stub = "stub_models (str_of ''lecture.wav'')"
  let ?fail = "failing_models (LibraryError ''summarizer failed'') (LibraryError ''generator failed'')"
  let ?s1 = "\<lparr>gen_picks = [], pool_merge = [False]\<rparr>"
  let ?s2 = "\<lparr>gen_picks = [], pool_merge = [True]\<rparr>"
  let ?sm0 = "\<lambda>(chunks :: pystr list) (a :: nat) (b :: nat) (d :: bool).
                (Inl (LibraryError ''summarizer called'') :: pyexn + pydict list)"
  let ?qg0 = "\<lambda>(p :: pystr) (a :: nat) (n :: nat) (d :: bool) (s :: nat).
                (Inl (LibraryError ''generator called'') :: pyexn + pydict list, Suc s)"
  let ?sm2 = "\<lambda>(chunks :: pystr list) (a :: nat) (b :: nat) (d :: bool).
                    if chunks = [str_of ''hello world'']
                    then Inr [[str_of ''summary_text'' \<mapsto> str_of ''SUM'']]
                    else (Inl (LibraryError ''other text'') :: pyexn + pydict list)"
  let ?qg2 = "\<lambda>(p :: pystr) (a :: nat) (n :: nat) (d :: bool) (s :: nat).
                    if p = prompt (str_of ''hello world'')
                    then (Inr [[str_of ''generated_text'' \<mapsto> str_of ''Q1''],
                               [str_of ''generated_text'' \<mapsto> str_of ''Q2''],
                               [str_of ''generated_text'' \<mapsto> str_of ''Q3'']], Suc s)
                    else (Inl (LibraryError ''other text'') :: pyexn + pydict list, s)"

  have t0: "transcribe_audio ?stub (str_of ''missing.wav'') = Inl (LibraryError ''cannot read audio'')"
    by (simp add: transcribe_audio_def stub_models_def str_of_def)
  from C8_sequencing [of ?stub ?s2 "str_of ''missing.wav''" empty_world]
  obtain r0 w0 rest0 where
        failed0: "\<forall>e. transcribe_audio ?stub (str_of ''missing.wav'') = Inl e \<longrightarrow>
            r0 = Inl e \<and> sampler w0 = sampler empty_world
          \<and> (\<forall>sm qg. process_audio (?stub\<lparr>summarizer := sm, question_generator := qg\<rparr>)
                         ?s2 (str_of ''missing.wav'') empty_world = Some (r0, w0))"
    and cw0: "calls w0 = calls empty_world @ Whisper (str_of ''missing.wav'') # rest0"
    and only0: "\<forall>c\<in>set rest0. \<exists>t. transcribe_audio ?stub (str_of ''missing.wav'') = Inr t
            \<and> (c = Summarizer (text_chunks t) \<or> (\<exists>i<length (text_chunks t). c = Generator i))"
    by (elim exE conjE) (rule that, assumption+)
  note f0 = failed0 [rule_format, OF t0]
  have "rest0 = []"
    using only0 t0 by (cases rest0) auto
  then have c0: "calls w0 = [Whisper (str_of ''missing.wav'')]"
    using cw0 by (simp add: empty_world_def)
  have s0: "sampler w0 = 0"
    using f0 [THEN conjunct2, THEN conjunct1] by (simp add: empty_world_def)
  have "process_audio (?stub\<lparr>summarizer := ?sm0, question_generator := ?qg0\<rparr>)
           ?s2 (str_of ''missing.wav'') empty_world
        = Some (Inl (LibraryError ''cannot read audio''), w0)"
    using f0 [THEN conjunct2, THEN conjunct2, rule_format, where sm = ?sm0 and qg = ?qg0]
          f0 [THEN conjunct1]
    by (simp only:)
  then have zero: "\<exists>w'. process_audio (?stub\<lparr>summarizer := ?sm0, question_generator := ?qg0\<rparr>)
           ?s2 (str_of ''missing.wav'') empty_world
           = Some (Inl (LibraryError ''cannot read audio''), w')
         \<and> sampler w' = 0 \<and> calls w' = [Whisper (str_of ''missing.wav'')]"
    using s0 c0 by blast

  have c: "text_chunks (str_of ''hello world'') = [str_of ''hello world'']"
    by (rule text_chunks_single) (simp_all add: str_of_def)
  have o: "open_error empty_world (str_of ''lecture_summary.txt'') = None"
    by (simp add: empty_world_def)
  obtain bytes where enc: "encode_text (platform empty_world)
           (combined_text (str_of ''hello world'') (str_of ''SUM'')
              (str_of ''Q1'' @ NL @ str_of ''Q2'' @ NL @ str_of ''Q3'')) = Inr bytes"
    by (simp only: encode_combined_text encode_text_append encode_text_ascii encode_text_NL
        sum.case)
  note srun = stub_run [OF o enc, of "str_of ''lecture.wav''" ?s2]
  from C8_sequencing [of ?stub ?s2 "str_of ''lecture.wav''" empty_world]
  obtain r2 w2 rest where run2: "process_audio ?stub ?s2 (str_of ''lecture.wav'') empty_world
                                  = Some (r2, w2)"
    and asked: "\<forall>t. transcribe_audio ?stub (str_of ''lecture.wav'') = Inr t \<longrightarrow>
            (\<forall>sm qg. sm (text_chunks t) 200 50 False = summarizer ?stub (text_chunks t) 200 50 False
                   \<and> (\<forall>c\<in>set (text_chunks t).
                         qg (prompt c) 120 3 True = question_generator ?stub (prompt c) 120 3 True)
                 \<longrightarrow> process_audio (?stub\<lparr>summarizer := sm, question_generator := qg\<rparr>)
                         ?s2 (str_of ''lecture.wav'') empty_world = Some (r2, w2))
          \<and> (\<exists>qr s' order. generate_questions ?stub (gen_picks ?s2) t (sampler empty_world)
                               = Some (qr, s', order)
                           \<and> sampler w2 = s')"
    and written: "\<forall>t sm q fp. r2 = Inr (t, sm, q, fp) \<longrightarrow>
            (\<exists>bytes. encode_text (platform empty_world) (combined_text t sm q) = Inr bytes
                   \<and> files w2 fp = Some bytes)"
    and cw: "calls w2 = calls empty_world @ Whisper (str_of ''lecture.wav'') # rest"
    by (elim exE conjE) (rule that, assumption+)
  note a2 = asked [rule_format, OF stub_transcribe]
  have p1: "?sm2 (text_chunks (str_of ''hello world'')) 200 50 False
            = summarizer ?stub (text_chunks (str_of ''hello world'')) 200 50 False"
    by (simp add: c stub_models_def)
  have p2: "\<forall>c\<in>set (text_chunks (str_of ''hello world'')).
               ?qg2 (prompt c) 120 3 True = question_generator ?stub (prompt c) 120 3 True"
    by (simp add: c stub_models_def)
  have r2: "r2 = Inr (str_of ''hello world'', str_of ''SUM'',
                        str_of ''Q1'' @ NL @ str_of ''Q2'' @ NL @ str_of ''Q3'',
                        str_of ''lecture_summary.txt'')"
    using run2 srun by simp
  have run2': "process_audio (?stub\<lparr>summarizer := ?sm2, question_generator := ?qg2\<rparr>)
           ?s2 (str_of ''lecture.wav'') empty_world = Some (r2, w2)"
    by (rule a2 [THEN conjunct1, rule_format, where sm = ?sm2 and qg = ?qg2]) (rule conjI [OF p1 p2])
  have smp2: "sampler w2 = 1"
    using a2 [THEN conjunct2] by (auto simp: stub_generate empty_world_def)
  have fl2: "files w2 (str_of ''lecture_summary.txt'') \<noteq> None"
    using written r2 by fastforce
  have cl2: "calls w2 = Whisper (str_of ''lecture.wav'') # rest"
    using cw by (simp add: empty_world_def)
  have two: "\<exists>w' rest. process_audio (?stub\<lparr>summarizer := ?sm2, question_generator := ?qg2\<rparr>)
           ?s2 (str_of ''lecture.wav'') empty_world
           = Some (Inr (str_of ''hello world'', str_of ''SUM'',
                        str_of ''Q1'' @ NL @ str_of ''Q2'' @ NL @ str_of ''Q3'',
                        str_of ''lecture_summary.txt''), w')
         \<and> sampler w' = 1
         \<and> calls w' = Whisper (str_of ''lecture.wav'') # rest
         \<and> files w' (str_of ''lecture_summary.txt'') \<noteq> None"
    using run2' [unfolded r2] smp2 cl2 fl2 by blast

  have tf: "transcribe_audio ?fail (str_of ''a'') = Inr (str_of ''a'')"
    by (simp add: transcribe_audio_def failing_models_def getitem_def)
  have sf: "summarize_text ?fail (str_of ''a'') = Inl (LibraryError ''summarizer failed'')"
    by (simp add: summarize_text_def failing_models_def)
  from C8_sequencing [of ?fail ?s1 "str_of ''a''" empty_world]
  obtain r w' rest1 where run: "process_audio ?fail ?s1 (str_of ''a'') empty_world = Some (r, w')"
    and asked1: "\<forall>t. transcribe_audio ?fail (str_of ''a'') = Inr t \<longrightarrow>
            (\<forall>sm qg. sm (text_chunks t) 200 50 False = summarizer ?fail (text_chunks t) 200 50 False
                   \<and> (\<forall>c\<in>set (text_chunks t).
                         qg (prompt c) 120 3 True = question_generator ?fail (prompt c) 120 3 True)
                 \<longrightarrow> process_audio (?fail\<lparr>summarizer := sm, question_generator := qg\<rparr>)
                         ?s1 (str_of ''a'') empty_world = Some (r, w'))
          \<and> (\<exists>qr s' order. generate_questions ?fail (gen_picks ?s1) t (sampler empty_world)
                               = Some (qr, s', order)
                           \<and> sampler w' = s')"
    and await: "\<forall>t e. transcribe_audio ?fail (str_of ''a'') = Inr t \<and> summarize_text ?fail t = Inl e
               \<longrightarrow> r = Inl e"
    by (elim exE conjE) (rule that, assumption+)
  have r: "r = Inl (LibraryError ''summarizer failed'')"
    using await tf sf by blast
  have smp: "sampler w' = 1"
    using asked1 [rule_format, OF tf, THEN conjunct2]
    by (auto simp: failing_generate empty_world_def)
  have "calls w' = [Whisper (str_of ''a''), Generator 0, Summarizer [str_of ''a'']]"
    using run by (auto simp: failing_run empty_world_def)
  then have one: "\<exists>w'. process_audio ?fail ?s1 (str_of ''a'') empty_world
           = Some (Inl (LibraryError ''summarizer failed''), w')
         \<and> sampler w' = 1
         \<and> calls w' = [Whisper (str_of ''a''), Generator 0, Summarizer [str_of ''a'']]"
    using run r smp by blast
  show ?thesis
    by (rule conjI [OF zero conjI [OF two one]])
qed

section \<open>Order of the questions (C9)\<close>

text \<open>
  Claim C9, as stated: the question strings appear in the order in which the concurrent
  per-chunk tasks complete, not in the order in which they were submitted. It fails: in
  the run below the task of the second chunk completes first, and the questions of the
  first chunk come first all the same.
\<close>

theorem C9_counterexample:
  "generate_questions echo_models [1] (replicate 1024 97 @ [98]) 0
     = Some (Inr (py_join NL [str_of ''a'', str_of ''a'', str_of ''a'',
                              str_of ''b'', str_of ''b'', str_of ''b'']), 2, [1, 0])
   \<and> py_join NL [str_of ''a'', str_of ''a'', str_of ''a'', str_of ''b'', str_of ''b'', str_of ''b'']
     \<noteq> py_join NL [str_of ''b'', str_of ''b'', str_of ''b'', str_of ''a'', str_of ''a'', str_of ''a'']"
  using echo_run by (simp add: str_of_def)

text \<open>
  Claim C9, amended: whatever the order in which the per-chunk tasks complete (any
  arrangement of the task numbers), the questions are grouped by chunk in submission
  order: the \<open>i\<close>-th group of the newline-joined output is what the generator returned
  for the \<open>i\<close>-th chunk.
\<close>

theorem C9_submission_order:
  assumes "generate_questions m picks t s = Some (Inr out, s', order)"
  shows "\<exists>groups. out = py_join NL (concat groups)
     \<and> length groups = length (text_chunks t)
     \<and> (\<forall>i<length (text_chunks t). \<exists>st ds.
           fst (question_generator m (prompt (text_chunks t ! i)) 120 3 True st) = Inr ds
           \<and> collect_field (str_of ''generated_text'') ds = Inr (groups ! i))
     \<and> distinct order \<and> set order = {..<length (text_chunks t)}"
proof -
  from assms obtain qs where q: "question_list m picks t s = Some (Inr qs, s', order)"
    and out: "out = py_join NL qs"
    by (auto simp: generate_questions_def split: option.splits sum.splits)
  from question_list_grouping [OF q] show ?thesis using out by blast
qed

theorem C9_submission_order_witness:
  "\<exists>groups. py_join NL [str_of ''a'', str_of ''a'', str_of ''a'',
                         str_of ''b'', str_of ''b'', str_of ''b''] = py_join NL (concat groups)
     \<and> length groups = 2 \<and> distinct [1, 0::nat] \<and> set [1, 0::nat] = {..<2}"
proof -
  have run: "generate_questions echo_models [1] (replicate 1024 97 @ [98]) 0
     = Some (Inr (py_join NL [str_of ''a'', str_of ''a'', str_of ''a'',
                              str_of ''b'', str_of ''b'', str_of ''b'']), 2, [1, 0])"
    using echo_run by (simp add: str_of_def)
  have n: "length (text_chunks (replicate 1024 (97::nat) @ [98])) = 2"
    by (simp only: two_chunks) simp
  from C9_submission_order [OF run] obtain groups where
    "py_join NL [str_of ''a'', str_of ''a'', str_of ''a'',
                 str_of ''b'', str_of ''b'', str_of ''b''] = py_join NL (concat groups)"
    and "length groups = length (text_chunks (replicate 1024 (97::nat) @ [98]))"
    and "distinct [1, 0::nat]"
    and "set [1, 0::nat] = {..<length (text_chunks (replicate 1024 (97::nat) @ [98]))}"
    by blast
  then show ?thesis unfolding n by blast
qed

section \<open>The empty transcript (C10)\<close>

text \<open>
  Claim C10. For the empty transcript there are no chunks. \<^verbatim>\<open>summarize_text\<close> hands the
  summarizer an empty batch and, the summarizer returning no summary for it, returns the
  empty string. \<^verbatim>\<open>generate_questions\<close> submits no task, leaves the sampler as it was and
  returns the empty string. \<^verbatim>\<open>process_audio\<close>, when the transcription is the empty
  string, the summarizer behaves so and the report file can be opened, returns
  \<^verbatim>\<open>("", "", "", "lecture_summary.txt")\<close> after the calls of the transcription model and
  of the summarizer alone, and the file holds the three header lines with nothing under
  them.
\<close>

theorem C10_empty_transcript:
  "(summarizer m [] 200 50 False = Inr [] \<longrightarrow> summarize_text m [] = Inr [])
   \<and> generate_questions m picks [] s = Some (Inr [], s, [])
   \<and> (whisper_model m audio = Inr result \<and> result (str_of ''text'') = Some []
        \<and> summarizer m [] 200 50 False = Inr []
        \<and> open_error w (str_of ''lecture_summary.txt'') = None
       \<longrightarrow> (\<exists>w'. process_audio m sch audio w
                   = Some (Inr ([], [], [], str_of ''lecture_summary.txt''), w')
              \<and> files w' (str_of ''lecture_summary.txt'') = Some
                   ([0xF0, 0x9F, 0x93, 0x9D] @ map of_char '' Transcription:''
                    @ map of_nat (linesep (platform w))
                    @ map of_nat (linesep (platform w)) @ map of_nat (linesep (platform w))
                    @ [0xF0, 0x9F, 0x93, 0x9C] @ map of_char '' Summary:''
                    @ map of_nat (linesep (platform w))
                    @ map of_nat (linesep (platform w)) @ map of_nat (linesep (platform w))
                    @ [0xF0, 0x9F, 0xA4, 0x94] @ map of_char '' Practice Questions:''
                    @ map of_nat (linesep (platform w)))
              \<and> sampler w' = sampler w
              \<and> calls w' = calls w @ [Whisper audio, Summarizer []]))"
proof (intro conjI impI)
  assume "summarizer m [] 200 50 False = Inr []"
  then show "summarize_text m [] = Inr []"
    by (simp add: summarize_text_def text_chunks_def slices_from_beyond)
next
  show "generate_questions m picks [] s = Some (Inr [], s, [])"
    by (rule generate_questions_empty)
next
  let ?p = "platform w"
  let ?bytes = "[0xF0, 0x9F, 0x93, 0x9D] @ map of_char '' Transcription:''
                    @ map of_nat (linesep ?p)
                    @ map of_nat (linesep ?p) @ map of_nat (linesep ?p)
                    @ [0xF0, 0x9F, 0x93, 0x9C] @ map of_char '' Summary:''
                    @ map of_nat (linesep ?p)
                    @ map of_nat (linesep ?p) @ map of_nat (linesep ?p)
                    @ [0xF0, 0x9F, 0xA4, 0x94] @ map of_char '' Practice Questions:''
                    @ map of_nat (linesep ?p) :: byte list"
  assume a: "whisper_model m audio = Inr result \<and> result (str_of ''text'') = Some []
        \<and> summarizer m [] 200 50 False = Inr []
        \<and> open_error w (str_of ''lecture_summary.txt'') = None"
  have tr: "transcribe_audio m audio = Inr []"
    using a by (simp add: transcribe_audio_def getitem_def)
  have sm: "summarize_text m [] = Inr []"
    using a by (simp add: summarize_text_def text_chunks_def slices_from_beyond)
  have e: "encode_text ?p [] = Inr []"
    by (simp add: encode_text_def translate_newlines_def)
  have enc: "encode_text ?p (combined_text [] [] []) = Inr ?bytes"
    by (simp only: encode_combined_text e sum.case append_Nil2 append_Nil)
  have "process_audio m sch audio w =
          Some (Inr ([], [], [], str_of ''lecture_summary.txt''),
                w\<lparr>sampler := sampler w,
                   calls := calls w @ [Whisper audio]
                     @ merge_by (pool_merge sch) [Summarizer (text_chunks [])] (map Generator []),
                   files := (files w)(str_of ''lecture_summary.txt'' \<mapsto> ?bytes)\<rparr>)"
    using a enc
    by (simp add: process_audio_write [OF tr generate_questions_empty sm] write_file_def)
  then show "\<exists>w'. process_audio m sch audio w
                   = Some (Inr ([], [], [], str_of ''lecture_summary.txt''), w')
              \<and> files w' (str_of ''lecture_summary.txt'') = Some ?bytes
              \<and> sampler w' = sampler w
              \<and> calls w' = calls w @ [Whisper audio, Summarizer []]"
    by (simp add: text_chunks_def slices_from_beyond)
qed

theorem C10_empty_transcript_witness:
  "summarize_text echo_models [] = Inr []
   \<and> (\<exists>w'. process_audio echo_models \<lparr>gen_picks = [2], pool_merge = [True]\<rparr> [] empty_world
              = Some (Inr ([], [], [], str_of ''lecture_summary.txt''), w')
          \<and> files w' (str_of ''lecture_summary.txt'') = Some
              ([0xF0, 0x9F, 0x93, 0x9D] @ map of_char '' Transcription:\<newline>\<newline>\<newline>''
               @ [0xF0, 0x9F, 0x93, 0x9C] @ map of_char '' Summary:\<newline>\<newline>\<newline>''
               @ [0xF0, 0x9F, 0xA4, 0x94] @ map of_char '' Practice Questions:\<newline>'')
          \<and> sampler w' = 0 \<and> calls w' = [Whisper [], Summarizer []])"
proof -
  note c = C10_empty_transcript [of echo_models "[]" 0 "[]" "[str_of ''text'' \<mapsto> []]"
      empty_world "\<lparr>gen_picks = [2], pool_merge = [True]\<rparr>"]
  have s: "summarizer echo_models [] 200 50 False = Inr []"
    by (simp add: echo_models_def)
  have h: "whisper_model echo_models [] = Inr [str_of ''text'' \<mapsto> []]
        \<and> [str_of ''text'' \<mapsto> []] (str_of ''text'') = Some []
        \<and> summarizer echo_models [] 200 50 False = Inr []
        \<and> open_error empty_world (str_of ''lecture_summary.txt'') = None"
    by (simp add: echo_models_def empty_world_def)
  from c s h show ?thesis
    by (simp add: empty_world_def)
qed

end
